theory Spec2Isabelle
  imports Main "HOL-Library.Word"
begin

section \<open>JavaScript strings\<close>

text \<open>
  A JavaScript string is a sequence of UTF-16 code units. The zero-width space U+200B
  that \<^verbatim>\<open>addressVariants\<close> removes is one code unit, so strings are lists of 16-bit words;
  \<open>lit\<close> turns an ASCII literal into such a list.
\<close>

type_synonym jstring = "16 word list"

definition lit :: "string \<Rightarrow> jstring" where
  "lit s = map of_char s"

text \<open>
  \<^verbatim>\<open>String.prototype.trim\<close> removes WhiteSpace and LineTerminator code points from both
  ends: TAB, LF, VT, FF, CR, SP, NBSP, U+1680, U+2000..U+200A, U+2028, U+2029, U+202F,
  U+205F, U+3000 and U+FEFF. U+200B is not among them.
\<close>

definition is_js_space :: "16 word \<Rightarrow> bool" where
  "is_js_space c =
     (c = 0x9 \<or> c = 0xA \<or> c = 0xB \<or> c = 0xC \<or> c = 0xD \<or> c = 0x20 \<or> c = 0xA0 \<or>
      c = 0x1680 \<or> (0x2000 \<le> c \<and> c \<le> 0x200A) \<or> c = 0x2028 \<or> c = 0x2029 \<or>
      c = 0x202F \<or> c = 0x205F \<or> c = 0x3000 \<or> c = 0xFEFF)"

definition js_trim :: "jstring \<Rightarrow> jstring" where
  "js_trim s = rev (dropWhile is_js_space (rev (dropWhile is_js_space s)))"

text \<open>\<^verbatim>\<open>.replace(/\u200b/g, "")\<close>: every occurrence of the code unit U+200B is dropped.\<close>

definition strip_zwsp :: "jstring \<Rightarrow> jstring" where
  "strip_zwsp s = filter (\<lambda>c. c \<noteq> 0x200B) s"

text \<open>
  \<^verbatim>\<open>toLowerCase\<close> maps A..Z to a..z. Code units outside ASCII are left as they are here:
  the Unicode lower-case mapping sends none of them to a hexadecimal digit or to the
  letter x, the result is only tested against an ASCII pattern, and it is returned only
  when it matches, so the candidates that \<^verbatim>\<open>addressVariants\<close> returns do not depend on
  how those code units are mapped.
\<close>

definition lower_unit :: "16 word \<Rightarrow> 16 word" where
  "lower_unit c = (if 0x41 \<le> c \<and> c \<le> 0x5A then c + 0x20 else c)"

definition toLowerCase :: "jstring \<Rightarrow> jstring" where
  "toLowerCase s = map lower_unit s"

definition is_digit :: "16 word \<Rightarrow> bool" where
  "is_digit c = (0x30 \<le> c \<and> c \<le> 0x39)"

definition is_hex_lower :: "16 word \<Rightarrow> bool" where
  "is_hex_lower c = (is_digit c \<or> (0x61 \<le> c \<and> c \<le> 0x66))"

definition is_hex_mixed :: "16 word \<Rightarrow> bool" where
  "is_hex_mixed c = (is_hex_lower c \<or> (0x41 \<le> c \<and> c \<le> 0x46))"

text \<open>
  The two patterns of \<^verbatim>\<open>addressVariants\<close>, \<^verbatim>\<open>/^0x[0-9a-fA-F]{40}$/\<close> and
  \<^verbatim>\<open>/^0x[0-9a-f]{40}$/\<close>: the characters 0 and x, then exactly forty digits of the class.
\<close>

definition matches_0x40 :: "(16 word \<Rightarrow> bool) \<Rightarrow> jstring \<Rightarrow> bool" where
  "matches_0x40 cls s =
     (case s of
        a # b # rest \<Rightarrow> a = 0x30 \<and> b = 0x78 \<and> length rest = 40 \<and> list_all cls rest
      | _ \<Rightarrow> False)"

definition is_address_mixed :: "jstring \<Rightarrow> bool" where
  "is_address_mixed s = matches_0x40 is_hex_mixed s"

definition is_address_lower :: "jstring \<Rightarrow> bool" where
  "is_address_lower s = matches_0x40 is_hex_lower s"

section \<open>Address candidates (addressVariants)\<close>

text \<open>
  An address argument as a caller passes it: \<^verbatim>\<open>undefined\<close>, \<^verbatim>\<open>null\<close> or a string.
  \<^verbatim>\<open>String(a ?? "")\<close> is the empty string for the first two.
\<close>

datatype addr_arg = ArgUndefined | ArgNull | ArgStr jstring

definition arg_or_empty :: "addr_arg \<Rightarrow> jstring" where
  "arg_or_empty a = (case a of ArgStr s \<Rightarrow> s | _ \<Rightarrow> [])"

definition clean_address :: "addr_arg \<Rightarrow> jstring" where
  "clean_address a = js_trim (strip_zwsp (arg_or_empty a))"

text \<open>
  \<^verbatim>\<open>[...new Set(out)]\<close>: a Set keeps the first occurrence of each value, in insertion
  order.
\<close>

definition set_insert :: "'a list \<Rightarrow> 'a \<Rightarrow> 'a list" where
  "set_insert acc x = (if x \<in> set acc then acc else acc @ [x])"

definition set_spread :: "'a list \<Rightarrow> 'a list" where
  "set_spread xs = foldl set_insert [] xs"

text \<open>
  \<^verbatim>\<open>window.ethers.getAddress\<close> belongs to the ethers library, which is not part of this
  repository: it is a parameter. \<open>None\<close> for the parameter is the case where
  \<^verbatim>\<open>window.ethers?.getAddress\<close> is falsy; a function result \<open>None\<close> is the case where
  the call throws, which the \<^verbatim>\<open>catch {}\<close> swallows.

  \<open>checksum_step\<close> is the \<^verbatim>\<open>try\<close> block: the value of \<^verbatim>\<open>cs\<close> when it is computed.
\<close>

type_synonym getAddress = "(jstring \<Rightarrow> jstring option) option"

definition checksum_step :: "getAddress \<Rightarrow> jstring \<Rightarrow> jstring option" where
  "checksum_step ga raw = (case ga of None \<Rightarrow> Some raw | Some f \<Rightarrow> f raw)"

definition addressVariants :: "getAddress \<Rightarrow> addr_arg \<Rightarrow> jstring list" where
  "addressVariants ga a =
     (let raw = clean_address a;
          out1 = (case checksum_step ga raw of
                    Some cs \<Rightarrow> (if is_address_mixed cs then [cs] else [])
                  | None \<Rightarrow> []);
          lc = toLowerCase raw;
          out2 = (if is_address_lower lc then out1 @ [lc] else out1)
      in set_spread out2)"

section \<open>JavaScript values, thrown values and BigInt\<close>

text \<open>
  Primitive values. A Number is \<open>PInt n\<close> when it holds the integer \<open>n\<close>, \<open>PNaN\<close> when it
  is NaN and \<open>PFrac\<close> otherwise (a fraction or an infinity). \<open>PBig\<close> is a BigInt.
\<close>

datatype prim =
    PUndefined | PNull | PBool bool | PInt int | PFrac | PNaN | PStr jstring | PBig int

definition truthy_prim :: "prim \<Rightarrow> bool" where
  "truthy_prim p =
     (case p of
        PUndefined \<Rightarrow> False | PNull \<Rightarrow> False | PBool b \<Rightarrow> b | PInt n \<Rightarrow> n \<noteq> 0
      | PFrac \<Rightarrow> True | PNaN \<Rightarrow> False | PStr s \<Rightarrow> s \<noteq> [] | PBig n \<Rightarrow> n \<noteq> 0)"

definition nullish :: "prim \<Rightarrow> bool" where
  "nullish p = (p = PUndefined \<or> p = PNull)"

text \<open>
  What a \<^verbatim>\<open>throw\<close> carries: an \<^verbatim>\<open>Error\<close> with its message, one of the engine's own errors,
  or a primitive value thrown by a collaborator. Only the last can be falsy.
\<close>

datatype exn = Error jstring | TypeError | RangeError | SyntaxError | Thrown prim

definition truthy_exn :: "exn \<Rightarrow> bool" where
  "truthy_exn e = (case e of Thrown p \<Rightarrow> truthy_prim p | _ \<Rightarrow> True)"

text \<open>
  \<^verbatim>\<open>BigInt(v)\<close>. A string goes through StringToBigInt: it is trimmed; the empty string is
  \<open>0\<close>; otherwise it is a decimal literal with an optional sign, or an unsigned literal
  with the prefix 0x, 0o or 0b; anything else is a SyntaxError.
\<close>

definition digit_value :: "16 word \<Rightarrow> nat option" where
  "digit_value c =
     (if is_digit c then Some (unat c - 48)
      else if 0x61 \<le> c \<and> c \<le> 0x66 then Some (unat c - 87)
      else if 0x41 \<le> c \<and> c \<le> 0x46 then Some (unat c - 55)
      else None)"

fun parse_digits :: "nat \<Rightarrow> jstring \<Rightarrow> nat \<Rightarrow> nat option" where
  "parse_digits base [] acc = Some acc"
| "parse_digits base (c # cs) acc =
     (case digit_value c of
        None \<Rightarrow> None
      | Some d \<Rightarrow> (if d < base then parse_digits base cs (acc * base + d) else None))"

definition parse_nat :: "nat \<Rightarrow> jstring \<Rightarrow> nat option" where
  "parse_nat base ds = (if ds = [] then None else parse_digits base ds 0)"

definition parse_signed :: "jstring \<Rightarrow> int option" where
  "parse_signed t =
     (case t of
        [] \<Rightarrow> None
      | c # rest \<Rightarrow>
          (if c = 0x2B then map_option int (parse_nat 10 rest)
           else if c = 0x2D then map_option (\<lambda>n. - int n) (parse_nat 10 rest)
           else map_option int (parse_nat 10 t)))"

definition StringToBigInt :: "jstring \<Rightarrow> int option" where
  "StringToBigInt s =
     (let t = js_trim s in
      if t = [] then Some 0
      else (case t of
              a # b # rest \<Rightarrow>
                (if a = 0x30 \<and> (b = 0x78 \<or> b = 0x58) then map_option int (parse_nat 16 rest)
                 else if a = 0x30 \<and> (b = 0x6F \<or> b = 0x4F) then map_option int (parse_nat 8 rest)
                 else if a = 0x30 \<and> (b = 0x62 \<or> b = 0x42) then map_option int (parse_nat 2 rest)
                 else parse_signed t)
            | _ \<Rightarrow> parse_signed t))"

definition BigInt :: "prim \<Rightarrow> exn + int" where
  "BigInt v =
     (case v of
        PUndefined \<Rightarrow> Inl TypeError
      | PNull \<Rightarrow> Inl TypeError
      | PBool b \<Rightarrow> Inr (if b then 1 else 0)
      | PInt n \<Rightarrow> Inr n
      | PFrac \<Rightarrow> Inl RangeError
      | PNaN \<Rightarrow> Inl RangeError
      | PStr s \<Rightarrow> (case StringToBigInt s of None \<Rightarrow> Inl SyntaxError | Some n \<Rightarrow> Inr n)
      | PBig n \<Rightarrow> Inr n)"

text \<open>
  Values that may be arrays: the fields of an encryption result. \<open>JBytes\<close> is a
  \<^verbatim>\<open>Uint8Array\<close>, the form in which the SDK hands out handles and proofs.
\<close>

datatype jsval = JPrim prim | JArr "jsval list" | JBytes "8 word list"

definition truthy :: "jsval \<Rightarrow> bool" where
  "truthy v = (case v of JPrim p \<Rightarrow> truthy_prim p | _ \<Rightarrow> True)"

definition js_or :: "jsval \<Rightarrow> jsval \<Rightarrow> jsval" where
  "js_or a b = (if truthy a then a else b)"

text \<open>\<^verbatim>\<open>v?.[0]\<close>: \<^verbatim>\<open>undefined\<close> for a nullish \<open>v\<close>, else the property \<^verbatim>\<open>0\<close> of \<open>v\<close>.\<close>

definition index0 :: "jsval \<Rightarrow> jsval" where
  "index0 v =
     (case v of
        JArr (x # _) \<Rightarrow> x
      | JBytes (b # _) \<Rightarrow> JPrim (PInt (uint b))
      | JPrim (PStr (c # _)) \<Rightarrow> JPrim (PStr [c])
      | _ \<Rightarrow> JPrim PUndefined)"

section \<open>Decrypt responses\<close>

text \<open>
  What \<^verbatim>\<open>r.userDecrypt\<close> and \<^verbatim>\<open>r.publicDecrypt\<close> resolve to: an array of values, an
  object whose own properties map handles to values, \<^verbatim>\<open>null\<close>/\<^verbatim>\<open>undefined\<close>, or another
  primitive. Handles are hexadecimal strings (so they never name a member of
  \<^verbatim>\<open>Object.prototype\<close>), and decrypted values are primitives.
\<close>

datatype response =
    RArray "prim list" | RObject "jstring \<Rightarrow> prim option" | RNullish | ROther

text \<open>\<^verbatim>\<open>out[k]\<close>: a TypeError on \<^verbatim>\<open>null\<close>/\<^verbatim>\<open>undefined\<close>, \<^verbatim>\<open>undefined\<close> for a missing key.\<close>

definition prop_get :: "response \<Rightarrow> jstring \<Rightarrow> exn + prim" where
  "prop_get out k =
     (case out of
        RObject m \<Rightarrow> (case m k of Some v \<Rightarrow> Inr v | None \<Rightarrow> Inr PUndefined)
      | RNullish \<Rightarrow> Inl TypeError
      | _ \<Rightarrow> Inr PUndefined)"

text \<open>\<^verbatim>\<open>String(h)\<close> of a handle that is a string is the handle itself.\<close>

definition js_String :: "jstring \<Rightarrow> jstring" where
  "js_String h = h"

text \<open>\<^verbatim>\<open>out[h] ?? out[String(h)]\<close>: the second read happens only when the first is nullish.\<close>

definition lookup_handle :: "response \<Rightarrow> jstring \<Rightarrow> exn + prim" where
  "lookup_handle out h =
     (case prop_get out h of
        Inl e \<Rightarrow> Inl e
      | Inr v \<Rightarrow> (if nullish v then prop_get out (js_String h) else Inr v))"

text \<open>\<^verbatim>\<open>xs.map(f)\<close> where \<open>f\<close> may throw: the first throw ends the whole map.\<close>

fun map_throw :: "('a \<Rightarrow> exn + 'b) \<Rightarrow> 'a list \<Rightarrow> exn + 'b list" where
  "map_throw f [] = Inr []"
| "map_throw f (x # xs) =
     (case f x of
        Inl e \<Rightarrow> Inl e
      | Inr y \<Rightarrow> (case map_throw f xs of Inl e \<Rightarrow> Inl e | Inr ys \<Rightarrow> Inr (y # ys)))"

text \<open>The last two lines of \<^verbatim>\<open>userDecrypt\<close> and of \<^verbatim>\<open>publicDecrypt\<close>.\<close>

definition decode_response :: "jstring list \<Rightarrow> response \<Rightarrow> exn + int list" where
  "decode_response handles out =
     (case out of
        RArray vs \<Rightarrow> map_throw BigInt vs
      | _ \<Rightarrow> map_throw (\<lambda>h. case lookup_handle out h of Inl e \<Rightarrow> Inl e | Inr v \<Rightarrow> BigInt v) handles)"

section \<open>Collaborators, module state and effects\<close>

text \<open>
  The SDK instance that \<^verbatim>\<open>createInstance\<close> resolves to is an object: it is known by an
  identity, and by whether it has a \<^verbatim>\<open>generateKeypair\<close> method.
\<close>

record inst =
  inst_id :: nat
  has_generateKeypair :: bool

record keypair =
  publicKey :: jstring
  privateKey :: jstring

record sepolia_config =
  chainId :: jsval
  kmsContractAddress :: jsval
  aclContractAddress :: jsval

record extra =
  x_contractAddress :: jstring
  x_userAddress :: jstring
  x_chainId :: jsval
  x_kmsContractAddress :: jsval
  x_aclContractAddress :: jsval

text \<open>
  The value \<^verbatim>\<open>enc.encrypt()\<close> resolves to (\<open>None\<close> when it is nullish), with the four
  fields \<^verbatim>\<open>doEncrypt\<close> reads; a field that is absent is \<^verbatim>\<open>undefined\<close>.
\<close>

record enc_out =
  o_handles :: jsval
  o_externalValues :: jsval
  o_inputProof :: jsval
  o_attestation :: jsval

text \<open>
  The object \<^verbatim>\<open>createEncryptedInput\<close> returns, as the code uses it: \<^verbatim>\<open>setExtraData\<close> when
  it is a function (what a call of it throws, if anything), \<^verbatim>\<open>add64\<close> and \<^verbatim>\<open>encrypt\<close>.
\<close>

record builder =
  setExtraData :: "(extra \<Rightarrow> exn option) option"
  add64 :: "int \<Rightarrow> exn option"
  encrypt :: "exn + enc_out option"

record encrypted =
  handle :: jsval
  attestation :: jsval

record eip712 =
  eip_domain :: nat
  eip_type :: nat
  eip_message :: nat

text \<open>
  The eight arguments of \<^verbatim>\<open>r.userDecrypt\<close>, in their order. A contract address is an
  \<open>addr_arg\<close>: \<^verbatim>\<open>userDecrypt\<close> may pass on the caller's argument as it came.
\<close>

record decrypt_request =
  rq_pairs :: "(jstring \<times> addr_arg) list"
  rq_privateKey :: jstring
  rq_publicKey :: jstring
  rq_signature :: jstring
  rq_contracts :: "addr_arg list"
  rq_user :: jstring
  rq_startTs :: jstring
  rq_days :: jstring

datatype call_shape = Structured | Positional

text \<open>Every call the module makes to a collaborator (SDK, instance, wallet), in order.\<close>

datatype event =
    EvInitSDK
  | EvCreateInstance
  | EvGenerateKeypair nat
  | EvSdkGenerateKeypair
  | EvEthAccounts
  | EvCreateEncryptedInput nat call_shape jstring jstring
  | EvSetExtraData extra
  | EvAdd64 int
  | EvEncrypt
  | EvRequestAccounts
  | EvGetSigner
  | EvSignerGetAddress nat
  | EvCreateEIP712 nat jstring "addr_arg list" jstring jstring
  | EvSignTypedData nat eip712
  | EvUserDecrypt nat decrypt_request
  | EvPublicDecrypt nat "jstring list"

text \<open>
  The collaborators are not part of this repository: they are a parameter, the world.
  Each answer may depend on the calls made so far. \<open>ethers\<close> is \<open>None\<close> when
  \<^verbatim>\<open>window.ethers\<close> is undefined, and holds \<^verbatim>\<open>getAddress\<close> otherwise.
\<close>

record world =
  has_ethereum :: bool
  ethers :: "getAddress option"
  SepoliaConfig :: "sepolia_config option"
  date_now :: "event list \<Rightarrow> nat"
  w_initSDK :: "event list \<Rightarrow> exn option"
  w_createInstance :: "event list \<Rightarrow> exn + inst"
  w_generateKeypair :: "event list \<Rightarrow> nat \<Rightarrow> exn + keypair"
  w_sdkGenerateKeypair :: "event list \<Rightarrow> exn + keypair"
  w_eth_accounts :: "event list \<Rightarrow> exn + jstring list option"
  w_createEncryptedInput ::
    "event list \<Rightarrow> nat \<Rightarrow> call_shape \<Rightarrow> jstring \<Rightarrow> jstring \<Rightarrow> exn + builder"
  w_eth_requestAccounts :: "event list \<Rightarrow> exn option"
  w_getSigner :: "event list \<Rightarrow> exn + nat"
  w_signer_getAddress :: "event list \<Rightarrow> nat \<Rightarrow> exn + jstring"
  w_createEIP712 ::
    "event list \<Rightarrow> nat \<Rightarrow> jstring \<Rightarrow> addr_arg list \<Rightarrow> jstring \<Rightarrow> jstring \<Rightarrow> exn + eip712"
  w_signTypedData :: "event list \<Rightarrow> nat \<Rightarrow> eip712 \<Rightarrow> exn + jstring"
  w_userDecrypt :: "event list \<Rightarrow> nat \<Rightarrow> decrypt_request \<Rightarrow> exn + response"
  w_publicDecrypt :: "event list \<Rightarrow> nat \<Rightarrow> jstring list \<Rightarrow> exn + response"

definition window_getAddress :: "world \<Rightarrow> getAddress" where
  "window_getAddress w = (case ethers w of None \<Rightarrow> None | Some g \<Rightarrow> g)"

text \<open>
  The module's two variables \<^verbatim>\<open>_relayer\<close> and \<^verbatim>\<open>_ud_kp\<close> (\<open>None\<close> is \<^verbatim>\<open>null\<close>), and the
  calls made so far.
\<close>

record mstate =
  relayer :: "inst option"
  ud_kp :: "keypair option"
  trace :: "event list"

text \<open>
  A computation takes the state, and returns the value or the thrown value together with
  the new state.
\<close>

type_synonym 'a js = "mstate \<Rightarrow> (exn + 'a) \<times> mstate"

definition ret :: "'a \<Rightarrow> 'a js" where
  "ret x s = (Inr x, s)"

definition throw :: "exn \<Rightarrow> 'a js" where
  "throw e s = (Inl e, s)"

definition bind :: "'a js \<Rightarrow> ('a \<Rightarrow> 'b js) \<Rightarrow> 'b js" where
  "bind m f s = (case m s of (Inl e, s') \<Rightarrow> (Inl e, s') | (Inr x, s') \<Rightarrow> f x s')"

definition lift :: "exn + 'a \<Rightarrow> 'a js" where
  "lift r s = (r, s)"

definition void :: "exn option \<Rightarrow> exn + unit" where
  "void r = (case r of None \<Rightarrow> Inr () | Some e \<Rightarrow> Inl e)"

text \<open>A call to a collaborator: it is recorded, and the world answers it.\<close>

definition ext :: "event \<Rightarrow> (event list \<Rightarrow> exn + 'a) \<Rightarrow> 'a js" where
  "ext ev answer s = (answer (trace s), s\<lparr>trace := trace s @ [ev]\<rparr>)"

section \<open>Session initialisation (initRelayer)\<close>

text \<open>
  The keypair is generated by the instance when it has the method, by the SDK otherwise;
  \<^verbatim>\<open>initRelayer\<close> and \<^verbatim>\<open>userDecrypt\<close> both contain this choice.
\<close>

definition generate_keypair :: "world \<Rightarrow> inst \<Rightarrow> keypair js" where
  "generate_keypair w r =
     (if has_generateKeypair r
      then ext (EvGenerateKeypair (inst_id r)) (\<lambda>t. w_generateKeypair w t (inst_id r))
      else ext EvSdkGenerateKeypair (w_sdkGenerateKeypair w))"

definition ensure_keypair :: "world \<Rightarrow> inst \<Rightarrow> keypair js" where
  "ensure_keypair w r s =
     (case ud_kp s of
        Some kp \<Rightarrow> (Inr kp, s)
      | None \<Rightarrow>
          bind (generate_keypair w r) (\<lambda>kp s'. (Inr kp, s'\<lparr>ud_kp := Some kp\<rparr>)) s)"

definition metamask_not_found :: exn where
  "metamask_not_found = Error (lit ''MetaMask not found'')"

text \<open>
  Run on its own, with every \<^verbatim>\<open>await\<close> resumed before anything else runs. The last line
  returns \<^verbatim>\<open>_relayer\<close>, which then holds the instance just created.
\<close>

definition initRelayer :: "world \<Rightarrow> inst js" where
  "initRelayer w s =
     (case relayer s of
        Some r \<Rightarrow> (Inr r, s)
      | None \<Rightarrow>
          (if \<not> has_ethereum w then (Inl metamask_not_found, s)
           else
             bind (ext EvInitSDK (\<lambda>t. void (w_initSDK w t))) (\<lambda>_.
             bind (ext EvCreateInstance (w_createInstance w)) (\<lambda>i.
             bind (\<lambda>s'. (Inr (), s'\<lparr>relayer := Some i\<rparr>)) (\<lambda>_.
             bind (ensure_keypair w i) (\<lambda>_.
             ret i)))) s))"

section \<open>Resolving the user address (ensureUserAddress)\<close>

definition no_connected_account :: exn where
  "no_connected_account = Error (lit ''No connected account'')"

text \<open>
  The accounts that \<^verbatim>\<open>eth_accounts\<close> resolves to: \<open>None\<close> when the value is nullish, else
  the array. \<^verbatim>\<open>accs[0]\<close> is falsy when the array is empty or starts with an empty string.
\<close>

definition ensureUserAddress :: "world \<Rightarrow> addr_arg \<Rightarrow> jstring js" where
  "ensureUserAddress w userAddress =
     (let raw = js_trim (arg_or_empty userAddress) in
      if raw \<noteq> [] then ret raw
      else if \<not> has_ethereum w then throw metamask_not_found
      else
        bind (ext EvEthAccounts (w_eth_accounts w)) (\<lambda>accs.
          (case accs of
             None \<Rightarrow> throw no_connected_account
           | Some [] \<Rightarrow> throw no_connected_account
           | Some (a # _) \<Rightarrow> (if a = [] then throw no_connected_account else ret a))))"

section \<open>Encryption (attachExtraData, doEncrypt, encrypt64For)\<close>

definition config_field :: "world \<Rightarrow> (sepolia_config \<Rightarrow> jsval) \<Rightarrow> jsval" where
  "config_field w f = (case SepoliaConfig w of None \<Rightarrow> JPrim PUndefined | Some c \<Rightarrow> f c)"

definition attachExtraData :: "world \<Rightarrow> builder \<Rightarrow> jstring \<Rightarrow> jstring \<Rightarrow> unit js" where
  "attachExtraData w enc ca ua =
     (let extra =
        \<lparr> x_contractAddress = ca,
          x_userAddress = ua,
          x_chainId = js_or (config_field w chainId) (JPrim (PStr (lit ''0xaa36a7''))),
          x_kmsContractAddress = config_field w kmsContractAddress,
          x_aclContractAddress = config_field w aclContractAddress \<rparr>
      in case setExtraData enc of
           Some f \<Rightarrow> ext (EvSetExtraData extra) (\<lambda>_. void (f extra))
         | None \<Rightarrow> ret ())"

definition out_field :: "enc_out option \<Rightarrow> (enc_out \<Rightarrow> jsval) \<Rightarrow> jsval" where
  "out_field out f = (case out of None \<Rightarrow> JPrim PUndefined | Some r \<Rightarrow> f r)"

definition missing_handle :: exn where
  "missing_handle = Error (lit ''Encrypt: missing handle'')"

definition missing_proof :: exn where
  "missing_proof = Error (lit ''Encrypt: missing inputProof/attestation'')"

definition doEncrypt :: "builder \<Rightarrow> int \<Rightarrow> encrypted js" where
  "doEncrypt enc valueBigInt =
     bind (ext (EvAdd64 valueBigInt) (\<lambda>_. void (add64 enc valueBigInt))) (\<lambda>_.
     bind (ext EvEncrypt (\<lambda>_. encrypt enc)) (\<lambda>out.
       (let h = index0 (js_or (out_field out o_handles) (out_field out o_externalValues));
            proof = js_or (out_field out o_inputProof) (out_field out o_attestation)
        in if \<not> truthy h then throw missing_handle
           else if \<not> truthy proof then throw missing_proof
           else ret \<lparr> handle = h, attestation = proof \<rparr>)))"

text \<open>
  One \<^verbatim>\<open>try\<close> block of \<^verbatim>\<open>encrypt64For\<close>: create the builder with one call shape, attach the
  extra data, encrypt. A throw of any of the three leaves the block.
\<close>

definition attempt ::
  "world \<Rightarrow> inst \<Rightarrow> int \<Rightarrow> call_shape \<Rightarrow> jstring \<Rightarrow> jstring \<Rightarrow> encrypted js" where
  "attempt w r v shape ca ua =
     bind (ext (EvCreateEncryptedInput (inst_id r) shape ca ua)
             (\<lambda>t. w_createEncryptedInput w t (inst_id r) shape ca ua)) (\<lambda>enc.
     bind (attachExtraData w enc ca ua) (\<lambda>_.
     doEncrypt enc v))"

text \<open>
  How a loop body or a loop ends: with the \<^verbatim>\<open>return\<close> of a value, or by going on with the
  current \<^verbatim>\<open>lastErr\<close> (\<open>None\<close> while it is \<^verbatim>\<open>undefined\<close>).
\<close>

datatype loop_exit = Return encrypted | Next "exn option"

definition pair_body ::
  "world \<Rightarrow> inst \<Rightarrow> int \<Rightarrow> jstring \<Rightarrow> jstring \<Rightarrow> exn option \<Rightarrow> mstate \<Rightarrow> loop_exit \<times> mstate" where
  "pair_body w r v ca ua lastErr s =
     (case attempt w r v Structured ca ua s of
        (Inr res, s1) \<Rightarrow> (Return res, s1)
      | (Inl e1, s1) \<Rightarrow>
          (let lastErr1 = Some e1 in
           case attempt w r v Positional ca ua s1 of
             (Inr res, s2) \<Rightarrow> (Return res, s2)
           | (Inl e2, s2) \<Rightarrow> (let lastErr2 = Some e2 in (Next lastErr2, s2))))"

fun ua_loop ::
  "world \<Rightarrow> inst \<Rightarrow> int \<Rightarrow> jstring \<Rightarrow> jstring list \<Rightarrow> exn option \<Rightarrow> mstate \<Rightarrow> loop_exit \<times> mstate" where
  "ua_loop w r v ca [] lastErr s = (Next lastErr, s)"
| "ua_loop w r v ca (ua # uas) lastErr s =
     (case pair_body w r v ca ua lastErr s of
        (Return res, s') \<Rightarrow> (Return res, s')
      | (Next lastErr', s') \<Rightarrow> ua_loop w r v ca uas lastErr' s')"

fun ca_loop ::
  "world \<Rightarrow> inst \<Rightarrow> int \<Rightarrow> jstring list \<Rightarrow> jstring list \<Rightarrow> exn option \<Rightarrow> mstate \<Rightarrow> loop_exit \<times> mstate" where
  "ca_loop w r v [] uaList lastErr s = (Next lastErr, s)"
| "ca_loop w r v (ca # cas) uaList lastErr s =
     (case ua_loop w r v ca uaList lastErr s of
        (Return res, s') \<Rightarrow> (Return res, s')
      | (Next lastErr', s') \<Rightarrow> ca_loop w r v cas uaList lastErr' s')"

text \<open>A template literal prints \<^verbatim>\<open>undefined\<close> and \<^verbatim>\<open>null\<close> by name.\<close>

definition template :: "addr_arg \<Rightarrow> jstring" where
  "template a =
     (case a of ArgUndefined \<Rightarrow> lit ''undefined'' | ArgNull \<Rightarrow> lit ''null'' | ArgStr s \<Rightarrow> s)"

definition invalid_contract :: "addr_arg \<Rightarrow> exn" where
  "invalid_contract a = Error (lit ''Contract address looks invalid: '' @ template a)"

definition invalid_user :: "jstring \<Rightarrow> exn" where
  "invalid_user u = Error (lit ''User address looks invalid: '' @ u)"

definition failed_all_variants :: exn where
  "failed_all_variants = Error (lit ''Relayer encrypt failed for all address variants'')"

text \<open>\<^verbatim>\<open>throw lastErr || new Error(...)\<close>.\<close>

definition final_error :: "exn option \<Rightarrow> exn" where
  "final_error lastErr =
     (case lastErr of
        Some e \<Rightarrow> (if truthy_exn e then e else failed_all_variants)
      | None \<Rightarrow> failed_all_variants)"

definition encrypt64For :: "world \<Rightarrow> addr_arg \<Rightarrow> addr_arg \<Rightarrow> int \<Rightarrow> encrypted js" where
  "encrypt64For w contractAddress userAddress valueBigInt =
     bind (initRelayer w) (\<lambda>r.
     bind (ensureUserAddress w userAddress) (\<lambda>uaRaw.
       (let caList = addressVariants (window_getAddress w) contractAddress;
            uaList = addressVariants (window_getAddress w) (ArgStr uaRaw)
        in if caList = [] then throw (invalid_contract contractAddress)
           else if uaList = [] then throw (invalid_user uaRaw)
           else (\<lambda>s. case ca_loop w r valueBigInt caList uaList None s of
                        (Return res, s') \<Rightarrow> (Inr res, s')
                      | (Next lastErr, s') \<Rightarrow> (Inl (final_error lastErr), s')))))"

section \<open>Decryption (userDecrypt, publicDecrypt)\<close>

definition getSignerAndUser :: "world \<Rightarrow> (nat \<times> jstring) js" where
  "getSignerAndUser w =
     (if \<not> has_ethereum w then throw metamask_not_found
      else if ethers w = None then throw TypeError
      else
        bind (ext EvRequestAccounts (\<lambda>t. void (w_eth_requestAccounts w t))) (\<lambda>_.
        bind (ext EvGetSigner (w_getSigner w)) (\<lambda>signer.
        bind (ext (EvSignerGetAddress signer) (\<lambda>t. w_signer_getAddress w t signer)) (\<lambda>user.
        ret (signer, user)))))"

text \<open>
  \<^verbatim>\<open>addressVariants(contractAddress)[0] || contractAddress\<close>: the first candidate when there
  is one and it is truthy, else the argument as it came.
\<close>

definition resolve_contract :: "getAddress \<Rightarrow> addr_arg \<Rightarrow> addr_arg" where
  "resolve_contract ga contractAddress =
     (case addressVariants ga contractAddress of
        [] \<Rightarrow> contractAddress
      | c # _ \<Rightarrow> (if c \<noteq> [] then ArgStr c else contractAddress))"

text \<open>\<^verbatim>\<open>Math.floor(Date.now() / 1000).toString()\<close>: the decimal digits of a natural number.\<close>

fun decimal :: "nat \<Rightarrow> jstring" where
  "decimal n =
     (if n < 10 then [of_nat (48 + n)]
      else decimal (n div 10) @ [of_nat (48 + n mod 10)])"

declare decimal.simps [simp del]

text \<open>\<^verbatim>\<open>String(signature).replace(/^0x/, "")\<close>.\<close>

definition strip_0x :: "jstring \<Rightarrow> jstring" where
  "strip_0x s = (case s of a # b # rest \<Rightarrow> (if a = 0x30 \<and> b = 0x78 then rest else s) | _ \<Rightarrow> s)"

text \<open>
  \<^verbatim>\<open>userDecrypt\<close> up to the value \<^verbatim>\<open>out\<close> that \<^verbatim>\<open>r.userDecrypt\<close> resolves to; the two
  lines that turn \<^verbatim>\<open>out\<close> into the result follow in \<open>userDecrypt\<close>.
\<close>

definition request_userDecrypt ::
  "world \<Rightarrow> jstring list \<Rightarrow> addr_arg \<Rightarrow> addr_arg \<Rightarrow> response js" where
  "request_userDecrypt w handles userAddress contractAddress =
     bind (initRelayer w) (\<lambda>r.
     bind (ensureUserAddress w userAddress) (\<lambda>ua.
     bind (ret (resolve_contract (window_getAddress w) contractAddress)) (\<lambda>ca.
     bind (ensure_keypair w r) (\<lambda>kp.
     bind (getSignerAndUser w) (\<lambda>su.
     bind (\<lambda>s. (Inr (decimal (date_now w (trace s) div 1000)), s)) (\<lambda>startTs.
     bind (ret (lit ''7'')) (\<lambda>days.
     bind (ext (EvCreateEIP712 (inst_id r) (publicKey kp) [ca] startTs days)
             (\<lambda>t. w_createEIP712 w t (inst_id r) (publicKey kp) [ca] startTs days)) (\<lambda>eip.
     bind (ext (EvSignTypedData (fst su) eip) (\<lambda>t. w_signTypedData w t (fst su) eip))
       (\<lambda>signature.
     bind (ret \<lparr> rq_pairs = map (\<lambda>h. (h, ca)) handles,
                 rq_privateKey = privateKey kp,
                 rq_publicKey = publicKey kp,
                 rq_signature = strip_0x signature,
                 rq_contracts = [ca],
                 rq_user = ua,
                 rq_startTs = startTs,
                 rq_days = days \<rparr>) (\<lambda>rq.
     ext (EvUserDecrypt (inst_id r) rq) (\<lambda>t. w_userDecrypt w t (inst_id r) rq)))))))))))"

definition userDecrypt :: "world \<Rightarrow> jstring list \<Rightarrow> addr_arg \<Rightarrow> addr_arg \<Rightarrow> int list js" where
  "userDecrypt w handles userAddress contractAddress =
     bind (request_userDecrypt w handles userAddress contractAddress) (\<lambda>out.
     lift (decode_response handles out))"

definition request_publicDecrypt :: "world \<Rightarrow> jstring list \<Rightarrow> response js" where
  "request_publicDecrypt w handles =
     bind (initRelayer w) (\<lambda>r.
     ext (EvPublicDecrypt (inst_id r) handles) (\<lambda>t. w_publicDecrypt w t (inst_id r) handles))"

definition publicDecrypt :: "world \<Rightarrow> jstring list \<Rightarrow> int list js" where
  "publicDecrypt w handles =
     bind (request_publicDecrypt w handles) (\<lambda>out.
     lift (decode_response handles out))"

section \<open>Concurrent calls of initRelayer\<close>

text \<open>
  JavaScript runs an \<^verbatim>\<open>async\<close> function up to its next \<^verbatim>\<open>await\<close> and then lets other code
  run. A call of \<^verbatim>\<open>initRelayer\<close> is therefore a task that is in one of these places: not
  started, suspended at one of its three \<^verbatim>\<open>await\<close>s (holding what the awaited promise
  settles to), or settled with the value of \<^verbatim>\<open>_relayer\<close> or with the thrown value.
\<close>

datatype init_task =
    NotStarted
  | AwaitInitSDK "exn + unit"
  | AwaitCreateInstance "exn + inst"
  | AwaitKeypair "exn + keypair"
  | Settled "exn + inst option"

text \<open>One task runs from where it is to its next \<^verbatim>\<open>await\<close>, or to its end.\<close>

definition init_step :: "world \<Rightarrow> init_task \<Rightarrow> mstate \<Rightarrow> init_task \<times> mstate" where
  "init_step w task s =
     (case task of
        NotStarted \<Rightarrow>
          (case relayer s of
             Some r \<Rightarrow> (Settled (Inr (Some r)), s)
           | None \<Rightarrow>
               (if \<not> has_ethereum w then (Settled (Inl metamask_not_found), s)
                else (AwaitInitSDK (void (w_initSDK w (trace s))),
                      s\<lparr>trace := trace s @ [EvInitSDK]\<rparr>)))
      | AwaitInitSDK (Inl e) \<Rightarrow> (Settled (Inl e), s)
      | AwaitInitSDK (Inr _) \<Rightarrow>
          (AwaitCreateInstance (w_createInstance w (trace s)),
           s\<lparr>trace := trace s @ [EvCreateInstance]\<rparr>)
      | AwaitCreateInstance (Inl e) \<Rightarrow> (Settled (Inl e), s)
      | AwaitCreateInstance (Inr i) \<Rightarrow>
          (let s1 = s\<lparr>relayer := Some i\<rparr> in
           case ud_kp s1 of
             Some _ \<Rightarrow> (Settled (Inr (relayer s1)), s1)
           | None \<Rightarrow>
               (if has_generateKeypair i
                then (AwaitKeypair (w_generateKeypair w (trace s1) (inst_id i)),
                      s1\<lparr>trace := trace s1 @ [EvGenerateKeypair (inst_id i)]\<rparr>)
                else (AwaitKeypair (w_sdkGenerateKeypair w (trace s1)),
                      s1\<lparr>trace := trace s1 @ [EvSdkGenerateKeypair]\<rparr>)))
      | AwaitKeypair (Inl e) \<Rightarrow> (Settled (Inl e), s)
      | AwaitKeypair (Inr kp) \<Rightarrow>
          (let s1 = s\<lparr>ud_kp := Some kp\<rparr> in (Settled (Inr (relayer s1)), s1))
      | Settled r \<Rightarrow> (Settled r, s))"

text \<open>
  A schedule names, step by step, the task that runs next. Calls made one after the other
  without awaiting are the schedule that starts every task before resuming any.
\<close>

fun run_schedule ::
  "world \<Rightarrow> nat list \<Rightarrow> init_task list \<Rightarrow> mstate \<Rightarrow> init_task list \<times> mstate" where
  "run_schedule w [] tasks s = (tasks, s)"
| "run_schedule w (k # ks) tasks s =
     (if k < length tasks
      then (case init_step w (tasks ! k) s of
              (task', s') \<Rightarrow> run_schedule w ks (tasks[k := task']) s')
      else run_schedule w ks tasks s)"

section \<open>Vocabulary for the statements\<close>

text \<open>
  The order in which \<^verbatim>\<open>encrypt64For\<close> is meant to go through its attempts: contract
  candidates in the outer loop, user candidates in the inner one, and for each pair the
  structured call shape before the positional one.
\<close>

definition attempt_order ::
  "jstring list \<Rightarrow> jstring list \<Rightarrow> (call_shape \<times> jstring \<times> jstring) list" where
  "attempt_order caList uaList =
     concat (map (\<lambda>ca. concat (map (\<lambda>ua. [(Structured, ca, ua), (Positional, ca, ua)]) uaList))
       caList)"

text \<open>The \<^verbatim>\<open>createEncryptedInput\<close> calls of a trace, in order.\<close>

definition created_input :: "event \<Rightarrow> (call_shape \<times> jstring \<times> jstring) list" where
  "created_input ev =
     (case ev of EvCreateEncryptedInput i shape ca ua \<Rightarrow> [(shape, ca, ua)] | _ \<Rightarrow> [])"

definition created_inputs :: "event list \<Rightarrow> (call_shape \<times> jstring \<times> jstring) list" where
  "created_inputs t = concat (map created_input t)"

text \<open>
  The attempts of a list, made one after the other, with the first success ending the
  search: the plain reading of ``try them in order''.
\<close>

fun try_all ::
  "world \<Rightarrow> inst \<Rightarrow> int \<Rightarrow> (call_shape \<times> jstring \<times> jstring) list \<Rightarrow> exn option \<Rightarrow> mstate
     \<Rightarrow> loop_exit \<times> mstate" where
  "try_all w r v [] lastErr s = (Next lastErr, s)"
| "try_all w r v (c # cs) lastErr s =
     (case attempt w r v (fst c) (fst (snd c)) (snd (snd c)) s of
        (Inr res, s') \<Rightarrow> (Return res, s')
      | (Inl e, s') \<Rightarrow> try_all w r v cs (Some e) s')"

text \<open>
  \<open>fail_all\<close> is \<open>Some\<close> exactly when every attempt of the list, made in order from the
  given state, throws; it then holds the last thrown value and the state reached.
\<close>

fun fail_all ::
  "world \<Rightarrow> inst \<Rightarrow> int \<Rightarrow> (call_shape \<times> jstring \<times> jstring) list \<Rightarrow> exn option \<Rightarrow> mstate
     \<Rightarrow> (exn option \<times> mstate) option" where
  "fail_all w r v [] lastErr s = Some (lastErr, s)"
| "fail_all w r v (c # cs) lastErr s =
     (case attempt w r v (fst c) (fst (snd c)) (snd (snd c)) s of
        (Inr res, s') \<Rightarrow> None
      | (Inl e, s') \<Rightarrow> fail_all w r v cs (Some e) s')"

text \<open>
  \<open>appends P m\<close>: whatever \<open>m\<close> does, the trace only grows, and by events that satisfy
  \<open>P\<close>.
\<close>

definition appends :: "(event \<Rightarrow> bool) \<Rightarrow> 'a js \<Rightarrow> bool" where
  "appends P m =
     (\<forall>s res s'. m s = (res, s') \<longrightarrow> (\<exists>new. trace s' = trace s @ new \<and> list_all P new))"

text \<open>The calls that set a session up and resolve the user: none of them builds an input.\<close>

definition is_session_event :: "event \<Rightarrow> bool" where
  "is_session_event ev =
     (case ev of
        EvInitSDK \<Rightarrow> True | EvCreateInstance \<Rightarrow> True | EvGenerateKeypair i \<Rightarrow> True
      | EvSdkGenerateKeypair \<Rightarrow> True | EvEthAccounts \<Rightarrow> True | _ \<Rightarrow> False)"

text \<open>
  An event carries the contract address \<open>ca\<close> when it is not a call with a contract
  address, or when \<open>ca\<close> is the one it passes: the single element of the contract list,
  and the partner of every handle.
\<close>

definition carries_contract :: "addr_arg \<Rightarrow> jstring list \<Rightarrow> event \<Rightarrow> bool" where
  "carries_contract ca handles ev =
     (case ev of
        EvCreateEIP712 i pk cas startTs days \<Rightarrow> cas = [ca]
      | EvUserDecrypt i rq \<Rightarrow>
          rq_contracts rq = [ca] \<and> rq_pairs rq = map (\<lambda>h. (h, ca)) handles
      | _ \<Rightarrow> True)"

text \<open>Every collaborator answers every call, and the wallet has an account.\<close>

definition collaborators_succeed :: "world \<Rightarrow> bool" where
  "collaborators_succeed w =
     (has_ethereum w \<and> ethers w \<noteq> None
      \<and> (\<forall>t. w_initSDK w t = None)
      \<and> (\<forall>t. \<exists>i. w_createInstance w t = Inr i)
      \<and> (\<forall>t i. \<exists>kp. w_generateKeypair w t i = Inr kp)
      \<and> (\<forall>t. \<exists>kp. w_sdkGenerateKeypair w t = Inr kp)
      \<and> (\<forall>t. \<exists>a rest. w_eth_accounts w t = Inr (Some (a # rest)) \<and> a \<noteq> [])
      \<and> (\<forall>t. w_eth_requestAccounts w t = None)
      \<and> (\<forall>t. \<exists>signer. w_getSigner w t = Inr signer)
      \<and> (\<forall>t signer. \<exists>user. w_signer_getAddress w t signer = Inr user)
      \<and> (\<forall>t i pk cas startTs days. \<exists>eip. w_createEIP712 w t i pk cas startTs days = Inr eip)
      \<and> (\<forall>t signer eip. \<exists>sig. w_signTypedData w t signer eip = Inr sig)
      \<and> (\<forall>t i rq. \<exists>out. w_userDecrypt w t i rq = Inr out))"

section \<open>Example collaborators\<close>

text \<open>
  Concrete inputs at which the statements below are evaluated. \<open>example_getAddress\<close>
  stands in for \<^verbatim>\<open>ethers.getAddress\<close>: it gives one address a mixed-case form, returns any
  other well-formed address as it is, and throws on the rest.
\<close>

definition example_address :: jstring where
  "example_address = lit '' 0xABCDEF1234567890ABCDEF1234567890ABCDEF12'' @ [0x200B, 0x20]"

definition example_checksummed :: jstring where
  "example_checksummed = lit ''0xabCDef1234567890ABCDEF1234567890ABCDEF12''"

definition example_lower :: jstring where
  "example_lower = lit ''0xabcdef1234567890abcdef1234567890abcdef12''"

definition example_user :: jstring where
  "example_user = lit ''0x1111111111111111111111111111111111111111''"

definition example_getAddress :: getAddress where
  "example_getAddress =
     Some (\<lambda>raw. if toLowerCase raw = example_lower then Some example_checksummed
                 else if is_address_mixed raw then Some raw
                 else None)"

definition fresh :: mstate where
  "fresh = \<lparr> relayer = None, ud_kp = None, trace = [] \<rparr>"

definition stub_builder :: "exn + enc_out option \<Rightarrow> builder" where
  "stub_builder result = \<lparr> setExtraData = None, add64 = (\<lambda>_. None), encrypt = result \<rparr>"

definition good_out :: enc_out where
  "good_out =
     \<lparr> o_handles = JArr [JBytes [1, 2]], o_externalValues = JPrim PUndefined,
       o_inputProof = JBytes [3], o_attestation = JPrim PUndefined \<rparr>"

text \<open>
  A wallet with one account and an SDK whose calls all succeed; every instance it
  creates is a new one. Its \<^verbatim>\<open>createEncryptedInput\<close> and the value its decrypt calls
  resolve to are given.
\<close>

definition stub_world ::
  "(call_shape \<Rightarrow> jstring \<Rightarrow> jstring \<Rightarrow> exn + builder) \<Rightarrow> response \<Rightarrow> world" where
  "stub_world create out =
     \<lparr> has_ethereum = True,
       ethers = Some example_getAddress,
       SepoliaConfig = None,
       date_now = (\<lambda>t. 1700000000000),
       w_initSDK = (\<lambda>t. None),
       w_createInstance =
         (\<lambda>t. Inr \<lparr> inst_id = length (filter (\<lambda>ev. ev = EvCreateInstance) t),
                     has_generateKeypair = True \<rparr>),
       w_generateKeypair = (\<lambda>t i. Inr \<lparr> publicKey = lit ''pub'', privateKey = lit ''priv'' \<rparr>),
       w_sdkGenerateKeypair = (\<lambda>t. Inr \<lparr> publicKey = lit ''pub'', privateKey = lit ''priv'' \<rparr>),
       w_eth_accounts = (\<lambda>t. Inr (Some [example_user])),
       w_createEncryptedInput = (\<lambda>t i. create),
       w_eth_requestAccounts = (\<lambda>t. None),
       w_getSigner = (\<lambda>t. Inr 0),
       w_signer_getAddress = (\<lambda>t signer. Inr example_user),
       w_createEIP712 =
         (\<lambda>t i pk cas startTs days. Inr \<lparr> eip_domain = 0, eip_type = 1, eip_message = 2 \<rparr>),
       w_signTypedData = (\<lambda>t signer eip. Inr (lit ''0xsig'')),
       w_userDecrypt = (\<lambda>t i rq. Inr out),
       w_publicDecrypt = (\<lambda>t i handles. Inr out) \<rparr>"

text \<open>A backend that accepts only the positional call shape with the lower-case address.\<close>

definition create_positional_lower :: "call_shape \<Rightarrow> jstring \<Rightarrow> jstring \<Rightarrow> exn + builder" where
  "create_positional_lower shape ca ua =
     (if shape = Positional \<and> ca = example_lower then Inr (stub_builder (Inr (Some good_out)))
      else Inl (Error (lit ''unsupported'')))"

text \<open>
  A backend that builds an input for either call shape, but whose structured builder
  fails to encrypt.
\<close>

definition create_structured_unusable :: "call_shape \<Rightarrow> jstring \<Rightarrow> jstring \<Rightarrow> exn + builder" where
  "create_structured_unusable shape ca ua =
     (if shape = Structured then Inr (stub_builder (Inl (Error (lit ''encrypt failed''))))
      else Inr (stub_builder (Inr (Some good_out))))"

text \<open>A backend that throws on every call, each time with a message of its own.\<close>

definition create_never :: "call_shape \<Rightarrow> jstring \<Rightarrow> jstring \<Rightarrow> exn + builder" where
  "create_never shape ca ua =
     Inl (Error ((if shape = Structured then lit ''structured '' else lit ''positional '') @ ca))"

text \<open>Two handles, a mapping that holds a value for each, and the values by handle.\<close>

definition handle_A :: jstring where
  "handle_A = lit ''0xhandleA''"

definition handle_B :: jstring where
  "handle_B = lit ''0xhandleB''"

definition example_mapping :: response where
  "example_mapping = RObject [handle_A \<mapsto> PInt 7, handle_B \<mapsto> PInt 9]"

definition example_values :: "jstring \<Rightarrow> 64 word" where
  "example_values h = (if h = handle_A then 7 else 9)"

text \<open>A world whose \<^verbatim>\<open>createInstance\<close> rejects the first time and resolves from then on.\<close>

definition flaky_world :: world where
  "flaky_world =
     (stub_world create_never example_mapping)
       \<lparr> w_createInstance :=
           (\<lambda>t. if EvCreateInstance \<in> set t
                 then Inr \<lparr> inst_id = 1, has_generateKeypair = False \<rparr>
                 else Inl (Error (lit ''connection refused''))) \<rparr>"

definition not_an_address :: jstring where
  "not_an_address = lit ''nope''"

section \<open>Properties of the address candidates\<close>

lemma set_spread_Nil: "set_spread [] = []"
  by (simp add: set_spread_def)

lemma set_spread_single: "set_spread [x] = [x]"
  by (simp add: set_spread_def set_insert_def)

lemma set_spread_pair: "set_spread [x, y] = (if x = y then [x] else [x, y])"
  by (simp add: set_spread_def set_insert_def)

lemma hex_lower_mixed: "is_hex_lower c \<Longrightarrow> is_hex_mixed c"
  by (simp add: is_hex_mixed_def)

lemma address_lower_mixed: "is_address_lower s \<Longrightarrow> is_address_mixed s"
  by (auto simp: is_address_lower_def is_address_mixed_def matches_0x40_def list_all_iff
      hex_lower_mixed split: list.splits)

lemma addressVariants_cases:
  assumes "is_address_lower (toLowerCase (clean_address a))"
  shows "addressVariants ga a =
     (case checksum_step ga (clean_address a) of
        Some cs \<Rightarrow>
          (if is_address_mixed cs \<and> cs \<noteq> toLowerCase (clean_address a)
           then [cs, toLowerCase (clean_address a)]
           else [toLowerCase (clean_address a)])
      | None \<Rightarrow> [toLowerCase (clean_address a)])"
  using assms
  by (simp add: addressVariants_def Let_def set_spread_single set_spread_pair
      split: option.splits)

text \<open>
  Claim C5. Let the input be a string whose cleaned form (U+200B removed, then trimmed)
  lower-cases to a string matching \<^verbatim>\<open>^0x[0-9a-f]{40}$\<close>. Then \<open>addressVariants\<close> returns
  a duplicate-free list of one or two candidates, each matching the 40-hex-digit pattern;
  the lower-case form is its last element; and whenever the checksum step yields a form
  \<open>cs\<close> that matches the pattern, \<open>cs\<close> is the first element, so that a checksummed
  form distinct from the lower-case form precedes it.
\<close>

theorem addressVariants_valid_address:
  assumes "is_address_lower (toLowerCase (clean_address (ArgStr s)))"
  shows "distinct (addressVariants ga (ArgStr s))
    \<and> (length (addressVariants ga (ArgStr s)) = 1 \<or> length (addressVariants ga (ArgStr s)) = 2)
    \<and> toLowerCase (clean_address (ArgStr s)) \<in> set (addressVariants ga (ArgStr s))
    \<and> last (addressVariants ga (ArgStr s)) = toLowerCase (clean_address (ArgStr s))
    \<and> list_all is_address_mixed (addressVariants ga (ArgStr s))
    \<and> (\<forall>cs. checksum_step ga (clean_address (ArgStr s)) = Some cs \<and> is_address_mixed cs
          \<longrightarrow> cs \<in> set (addressVariants ga (ArgStr s)) \<and> hd (addressVariants ga (ArgStr s)) = cs)"
  using assms address_lower_mixed [OF assms]
  by (auto simp: addressVariants_cases split: option.splits)

theorem addressVariants_valid_address_witness:
  "is_address_lower (toLowerCase (clean_address (ArgStr example_address)))
   \<and> addressVariants example_getAddress (ArgStr example_address)
       = [example_checksummed, example_lower]"
proof -
  have c: "clean_address (ArgStr example_address) = lit ''0xABCDEF1234567890ABCDEF1234567890ABCDEF12''"
    by (simp add: example_address_def clean_address_def arg_or_empty_def strip_zwsp_def
        js_trim_def lit_def is_js_space_def)
  have l: "toLowerCase (lit ''0xABCDEF1234567890ABCDEF1234567890ABCDEF12'') = example_lower"
    by (simp add: toLowerCase_def lower_unit_def lit_def example_lower_def)
  have h: "is_address_lower (toLowerCase (clean_address (ArgStr example_address)))"
    unfolding c l
    by (simp add: is_address_lower_def matches_0x40_def lit_def is_hex_lower_def is_digit_def
        example_lower_def)
  have m: "is_address_mixed example_checksummed"
    by (simp add: is_address_mixed_def matches_0x40_def lit_def is_hex_mixed_def
        is_hex_lower_def is_digit_def example_checksummed_def)
  have k: "checksum_step example_getAddress (clean_address (ArgStr example_address))
     = Some example_checksummed"
    unfolding c by (simp add: checksum_step_def example_getAddress_def l)
  have ne: "example_checksummed \<noteq> example_lower"
    by (simp add: lit_def example_checksummed_def example_lower_def)
  let ?xs = "addressVariants example_getAddress (ArgStr example_address)"
  from addressVariants_valid_address [OF h, of example_getAddress]
  have n: "length ?xs = 1 \<or> length ?xs = 2"
    and la: "last ?xs = example_lower"
    and hd: "hd ?xs = example_checksummed"
    using k m by (simp_all add: c l)
  from n la hd ne have "?xs = [example_checksummed, example_lower]"
    by (cases ?xs; cases "tl ?xs") auto
  with h show ?thesis by simp
qed

section \<open>Properties of doEncrypt\<close>

lemma doEncrypt_result:
  "doEncrypt enc v s =
     (case add64 enc v of
        Some e \<Rightarrow> (Inl e, s\<lparr>trace := trace s @ [EvAdd64 v]\<rparr>)
      | None \<Rightarrow>
          (case encrypt enc of
             Inl e \<Rightarrow> (Inl e, s\<lparr>trace := trace s @ [EvAdd64 v, EvEncrypt]\<rparr>)
           | Inr out \<Rightarrow>
               (let h = index0 (js_or (out_field out o_handles) (out_field out o_externalValues));
                    proof = js_or (out_field out o_inputProof) (out_field out o_attestation)
                in (if \<not> truthy h then Inl missing_handle
                    else if \<not> truthy proof then Inl missing_proof
                    else Inr \<lparr> handle = h, attestation = proof \<rparr>,
                    s\<lparr>trace := trace s @ [EvAdd64 v, EvEncrypt]\<rparr>))))"
  by (simp add: doEncrypt_def bind_def ext_def void_def throw_def ret_def Let_def
      split: option.splits sum.splits)

lemma doEncrypt_truthy:
  "doEncrypt enc v s = (Inr x, s') \<Longrightarrow> truthy (handle x) \<and> truthy (attestation x)"
  by (auto simp: doEncrypt_result Let_def split: option.splits sum.splits if_splits)

lemma attempt_truthy:
  "attempt w r v shape ca ua s = (Inr x, s') \<Longrightarrow> truthy (handle x) \<and> truthy (attestation x)"
  unfolding attempt_def bind_def
  by (auto split: prod.splits sum.splits dest: doEncrypt_truthy)

lemma pair_body_truthy:
  "pair_body w r v ca ua le s = (Return x, s') \<Longrightarrow> truthy (handle x) \<and> truthy (attestation x)"
  unfolding pair_body_def Let_def
  by (auto split: prod.splits sum.splits dest: attempt_truthy)

lemma ua_loop_truthy:
  "ua_loop w r v ca uas le s = (Return x, s') \<Longrightarrow> truthy (handle x) \<and> truthy (attestation x)"
proof (induction uas arbitrary: le s)
  case Nil
  then show ?case by simp
next
  case (Cons ua uas)
  show ?case
  proof (cases "pair_body w r v ca ua le s")
    case (Pair ex s1)
    show ?thesis
    proof (cases ex)
      case (Return y)
      with Pair Cons.prems have "pair_body w r v ca ua le s = (Return x, s')" by simp
      then show ?thesis by (rule pair_body_truthy)
    next
      case (Next le')
      with Pair Cons.prems have "ua_loop w r v ca uas le' s1 = (Return x, s')" by simp
      then show ?thesis by (rule Cons.IH)
    qed
  qed
qed

lemma ca_loop_truthy:
  "ca_loop w r v cas uas le s = (Return x, s') \<Longrightarrow> truthy (handle x) \<and> truthy (attestation x)"
proof (induction cas arbitrary: le s)
  case Nil
  then show ?case by simp
next
  case (Cons ca cas)
  show ?case
  proof (cases "ua_loop w r v ca uas le s")
    case (Pair ex s1)
    show ?thesis
    proof (cases ex)
      case (Return y)
      with Pair Cons.prems have "ua_loop w r v ca uas le s = (Return x, s')" by simp
      then show ?thesis by (rule ua_loop_truthy)
    next
      case (Next le')
      with Pair Cons.prems have "ca_loop w r v cas uas le' s1 = (Return x, s')" by simp
      then show ?thesis by (rule Cons.IH)
    qed
  qed
qed

lemma encrypt64For_truthy:
  assumes "encrypt64For w ca ua v s = (Inr x, s')"
  shows "truthy (handle x) \<and> truthy (attestation x)"
proof -
  from assms obtain r uaRaw s2 where
    "ca_loop w r v (addressVariants (window_getAddress w) ca)
        (addressVariants (window_getAddress w) (ArgStr uaRaw)) None s2 = (Return x, s')"
    unfolding encrypt64For_def bind_def Let_def throw_def
    by (auto split: prod.splits sum.splits if_splits loop_exit.splits)
  then show ?thesis by (rule ca_loop_truthy)
qed

lemma missing_distinct: "missing_handle \<noteq> missing_proof"
  by (simp add: missing_handle_def missing_proof_def lit_def)

text \<open>
  Claim C7. In \<open>doEncrypt\<close>, an encryption result without a handle throws the
  missing-handle error, a result with a handle but without a proof throws the
  missing-proof error, and the two errors differ. A value is missing when it is falsy.
  Every value that \<open>doEncrypt\<close> returns, and so every value that \<open>encrypt64For\<close> returns,
  has a handle and an attestation that are not missing.
\<close>

theorem doEncrypt_mandatory_fields:
  "(add64 enc v = None \<and> encrypt enc = Inr out
      \<and> \<not> truthy (index0 (js_or (out_field out o_handles) (out_field out o_externalValues)))
      \<longrightarrow> fst (doEncrypt enc v s) = Inl missing_handle)
   \<and> (add64 enc v = None \<and> encrypt enc = Inr out
      \<and> truthy (index0 (js_or (out_field out o_handles) (out_field out o_externalValues)))
      \<and> \<not> truthy (js_or (out_field out o_inputProof) (out_field out o_attestation))
      \<longrightarrow> fst (doEncrypt enc v s) = Inl missing_proof)
   \<and> missing_handle \<noteq> missing_proof
   \<and> (\<forall>x. fst (doEncrypt enc v s) = Inr x \<longrightarrow> truthy (handle x) \<and> truthy (attestation x))
   \<and> (\<forall>x. fst (encrypt64For w ca ua v s) = Inr x \<longrightarrow> truthy (handle x) \<and> truthy (attestation x))"
proof -
  have a: "\<forall>x. fst (doEncrypt enc v s) = Inr x \<longrightarrow> truthy (handle x) \<and> truthy (attestation x)"
    using doEncrypt_truthy [of enc v s] by (cases "doEncrypt enc v s") auto
  have b: "\<forall>x. fst (encrypt64For w ca ua v s) = Inr x
      \<longrightarrow> truthy (handle x) \<and> truthy (attestation x)"
    using encrypt64For_truthy [of w ca ua v s] by (cases "encrypt64For w ca ua v s") auto
  show ?thesis
    using a b missing_distinct by (simp add: doEncrypt_result Let_def)
qed

section \<open>Traces of the operations\<close>

lemma appends_ret: "appends P (ret x)"
  by (simp add: appends_def ret_def)

lemma appends_throw: "appends P (throw e)"
  by (simp add: appends_def throw_def)

lemma appends_lift: "appends P (lift r)"
  by (simp add: appends_def lift_def)

lemma appends_ext: "P ev \<Longrightarrow> appends P (ext ev answer)"
  by (auto simp: appends_def ext_def)

lemma appends_bind:
  assumes m: "appends P m" and f: "\<And>x. appends P (f x)"
  shows "appends P (bind m f)"
  unfolding appends_def
proof (intro allI impI)
  fix s res s'
  assume run: "bind m f s = (res, s')"
  obtain r1 s1 where m1: "m s = (r1, s1)" by (cases "m s")
  from m m1 obtain new1 where n1: "trace s1 = trace s @ new1" "list_all P new1"
    unfolding appends_def by blast
  show "\<exists>new. trace s' = trace s @ new \<and> list_all P new"
  proof (cases r1)
    case (Inl e)
    with run m1 have "s' = s1" by (simp add: bind_def)
    with n1 show ?thesis by blast
  next
    case (Inr x)
    with run m1 have "f x s1 = (res, s')" by (simp add: bind_def)
    with f [of x] obtain new2 where "trace s' = trace s1 @ new2" "list_all P new2"
      unfolding appends_def by blast
    with n1 have "trace s' = trace s @ (new1 @ new2) \<and> list_all P (new1 @ new2)" by simp
    then show ?thesis by blast
  qed
qed

lemma appends_update:
  assumes "\<And>s. trace (g s) = trace s"
  shows "appends P (\<lambda>s. (Inr x, g s))"
  using assms by (simp add: appends_def)

lemma appendsD:
  "appends P m \<Longrightarrow> m s = (res, s') \<Longrightarrow> \<exists>new. trace s' = trace s @ new \<and> list_all P new"
  unfolding appends_def by blast

lemma appends_generate_keypair:
  assumes "\<And>i. P (EvGenerateKeypair i)" "P EvSdkGenerateKeypair"
  shows "appends P (generate_keypair w r)"
  unfolding generate_keypair_def using assms by (simp add: appends_ext)

lemma appends_ensure_keypair:
  assumes "\<And>i. P (EvGenerateKeypair i)" "P EvSdkGenerateKeypair"
  shows "appends P (ensure_keypair w r)"
proof -
  have g: "appends P (bind (generate_keypair w r) (\<lambda>kp s'. (Inr kp, s'\<lparr>ud_kp := Some kp\<rparr>)))"
    by (intro appends_bind appends_generate_keypair assms appends_update) simp
  show ?thesis
    unfolding appends_def
  proof (intro allI impI)
    fix s res s'
    assume run: "ensure_keypair w r s = (res, s')"
    show "\<exists>new. trace s' = trace s @ new \<and> list_all P new"
    proof (cases "ud_kp s")
      case None
      with run have "bind (generate_keypair w r) (\<lambda>kp s'. (Inr kp, s'\<lparr>ud_kp := Some kp\<rparr>)) s = (res, s')"
        by (simp add: ensure_keypair_def)
      with g show ?thesis by (rule appendsD)
    next
      case (Some kp)
      with run have "s' = s" by (simp add: ensure_keypair_def)
      then show ?thesis by simp
    qed
  qed
qed

lemma appends_initRelayer:
  assumes "P EvInitSDK" "P EvCreateInstance" "\<And>i. P (EvGenerateKeypair i)" "P EvSdkGenerateKeypair"
  shows "appends P (initRelayer w)"
proof -
  have g: "appends P (bind (ext EvInitSDK (\<lambda>t. void (w_initSDK w t))) (\<lambda>_.
             bind (ext EvCreateInstance (w_createInstance w)) (\<lambda>i.
             bind (\<lambda>s'. (Inr (), s'\<lparr>relayer := Some i\<rparr>)) (\<lambda>_.
             bind (ensure_keypair w i) (\<lambda>_.
             ret i)))))"
    by (intro appends_bind appends_ext appends_ensure_keypair appends_ret assms appends_update) simp
  show ?thesis
    unfolding appends_def
  proof (intro allI impI)
    fix s res s'
    assume run: "initRelayer w s = (res, s')"
    show "\<exists>new. trace s' = trace s @ new \<and> list_all P new"
    proof (cases "relayer s = None \<and> has_ethereum w")
      case True
      with run have "bind (ext EvInitSDK (\<lambda>t. void (w_initSDK w t))) (\<lambda>_.
             bind (ext EvCreateInstance (w_createInstance w)) (\<lambda>i.
             bind (\<lambda>s'. (Inr (), s'\<lparr>relayer := Some i\<rparr>)) (\<lambda>_.
             bind (ensure_keypair w i) (\<lambda>_.
             ret i)))) s = (res, s')"
        by (simp add: initRelayer_def)
      with g show ?thesis by (rule appendsD)
    next
      case False
      with run have "s' = s" by (auto simp: initRelayer_def split: option.splits)
      then show ?thesis by simp
    qed
  qed
qed

lemma appends_ensureUserAddress:
  assumes "P EvEthAccounts"
  shows "appends P (ensureUserAddress w ua)"
  unfolding ensureUserAddress_def Let_def
  by (auto intro!: appends_ret appends_throw appends_bind appends_ext assms
      split: option.splits list.splits)

lemma appends_getSignerAndUser:
  assumes "P EvRequestAccounts" "P EvGetSigner" "\<And>sg. P (EvSignerGetAddress sg)"
  shows "appends P (getSignerAndUser w)"
  unfolding getSignerAndUser_def
  by (auto intro!: appends_ret appends_throw appends_bind appends_ext assms)

lemma appends_attachExtraData:
  assumes "\<And>x. P (EvSetExtraData x)"
  shows "appends P (attachExtraData w enc ca ua)"
  unfolding attachExtraData_def Let_def
  by (auto intro!: appends_ret appends_ext assms split: option.splits)

lemma appends_doEncrypt:
  assumes "\<And>n. P (EvAdd64 n)" "P EvEncrypt"
  shows "appends P (doEncrypt enc v)"
  unfolding doEncrypt_def Let_def
  by (auto intro!: appends_ret appends_throw appends_bind appends_ext assms)

section \<open>The nested loops of encrypt64For as one search\<close>

lemma created_inputs_append:
  "created_inputs (t @ u) = created_inputs t @ created_inputs u"
  by (simp add: created_inputs_def)

lemma created_inputs_none:
  "list_all (\<lambda>ev. created_input ev = []) new \<Longrightarrow> created_inputs new = []"
  by (induction new) (simp_all add: created_inputs_def)

lemma attempt_created_inputs:
  assumes "attempt w r v shape ca ua s = (res, s')"
  shows "created_inputs (trace s') = created_inputs (trace s) @ [(shape, ca, ua)]"
proof -
  let ?P = "\<lambda>ev. created_input ev = []"
  let ?m = "ext (EvCreateEncryptedInput (inst_id r) shape ca ua)
             (\<lambda>t. w_createEncryptedInput w t (inst_id r) shape ca ua)"
  obtain r1 s1 where m1: "?m s = (r1, s1)" by (cases "?m s")
  then have t1: "trace s1 = trace s @ [EvCreateEncryptedInput (inst_id r) shape ca ua]"
    by (auto simp: ext_def)
  have rest: "\<And>enc. appends ?P (bind (attachExtraData w enc ca ua) (\<lambda>_. doEncrypt enc v))"
    by (intro appends_bind appends_attachExtraData appends_doEncrypt)
      (simp_all add: created_input_def)
  have "\<exists>new. trace s' = trace s1 @ new \<and> list_all ?P new"
  proof (cases r1)
    case (Inl e)
    with assms m1 have "s' = s1" by (simp add: attempt_def bind_def)
    then show ?thesis by simp
  next
    case (Inr enc)
    with assms m1 have "bind (attachExtraData w enc ca ua) (\<lambda>_. doEncrypt enc v) s1 = (res, s')"
      by (simp add: attempt_def bind_def)
    with rest [of enc] show ?thesis by (rule appendsD)
  qed
  then obtain new where n: "trace s' = trace s1 @ new" "list_all ?P new" by blast
  from n(2) have "created_inputs new = []" by (rule created_inputs_none)
  moreover have "created_inputs [EvCreateEncryptedInput (inst_id r) shape ca ua] = [(shape, ca, ua)]"
    by (simp add: created_inputs_def created_input_def)
  moreover have "trace s' = trace s @ [EvCreateEncryptedInput (inst_id r) shape ca ua] @ new"
    using t1 n(1) by simp
  ultimately show ?thesis
    by (simp only: created_inputs_append append_Nil2)
qed

lemma try_all_append:
  "try_all w r v (xs @ ys) le s =
     (case try_all w r v xs le s of
        (Return x, s') \<Rightarrow> (Return x, s')
      | (Next le', s') \<Rightarrow> try_all w r v ys le' s')"
  by (induction xs arbitrary: le s) (auto split: prod.splits sum.splits)

lemma pair_body_try_all:
  "pair_body w r v ca ua le s = try_all w r v [(Structured, ca, ua), (Positional, ca, ua)] le s"
  by (simp add: pair_body_def Let_def split: prod.splits sum.splits)

lemma ua_loop_try_all:
  "ua_loop w r v ca uas le s =
     try_all w r v (concat (map (\<lambda>ua. [(Structured, ca, ua), (Positional, ca, ua)]) uas)) le s"
proof (induction uas arbitrary: le s)
  case Nil
  show ?case by simp
next
  case (Cons ua uas)
  have "concat (map (\<lambda>ua. [(Structured, ca, ua), (Positional, ca, ua)]) (ua # uas))
      = [(Structured, ca, ua), (Positional, ca, ua)]
        @ concat (map (\<lambda>ua. [(Structured, ca, ua), (Positional, ca, ua)]) uas)"
    by simp
  then show ?case
    by (simp only: ua_loop.simps try_all_append Cons.IH pair_body_try_all)
qed

lemma ca_loop_try_all:
  "ca_loop w r v cas uas le s = try_all w r v (attempt_order cas uas) le s"
proof (induction cas arbitrary: le s)
  case Nil
  show ?case by (simp add: attempt_order_def)
next
  case (Cons ca cas)
  have "attempt_order (ca # cas) uas
      = concat (map (\<lambda>ua. [(Structured, ca, ua), (Positional, ca, ua)]) uas)
        @ attempt_order cas uas"
    by (simp add: attempt_order_def)
  then show ?case
    by (simp only: ca_loop.simps try_all_append Cons.IH ua_loop_try_all)
qed

lemma try_all_Return:
  "try_all w r v cs le s = (Return x, s') \<Longrightarrow>
     \<exists>pre c post le1 s1. cs = pre @ c # post \<and> fail_all w r v pre le s = Some (le1, s1)
        \<and> attempt w r v (fst c) (fst (snd c)) (snd (snd c)) s1 = (Inr x, s')"
proof (induction cs arbitrary: le s)
  case Nil
  then show ?case by simp
next
  case (Cons c cs)
  obtain r1 s1 where a: "attempt w r v (fst c) (fst (snd c)) (snd (snd c)) s = (r1, s1)"
    by (cases "attempt w r v (fst c) (fst (snd c)) (snd (snd c)) s")
  show ?case
  proof (cases r1)
    case (Inr y)
    with a Cons.prems have "y = x" "s1 = s'" by simp_all
    with a Inr have "c # cs = [] @ c # cs \<and> fail_all w r v [] le s = Some (le, s)
        \<and> attempt w r v (fst c) (fst (snd c)) (snd (snd c)) s = (Inr x, s')"
      by simp
    then show ?thesis by blast
  next
    case (Inl e)
    with a Cons.prems have "try_all w r v cs (Some e) s1 = (Return x, s')" by simp
    from Cons.IH [OF this] obtain pre c' post le1 s2 where
      "cs = pre @ c' # post" "fail_all w r v pre (Some e) s1 = Some (le1, s2)"
      "attempt w r v (fst c') (fst (snd c')) (snd (snd c')) s2 = (Inr x, s')"
      by blast
    with a Inl have "c # cs = (c # pre) @ c' # post
        \<and> fail_all w r v (c # pre) le s = Some (le1, s2)
        \<and> attempt w r v (fst c') (fst (snd c')) (snd (snd c')) s2 = (Inr x, s')"
      by simp
    then show ?thesis by blast
  qed
qed

lemma try_all_Next:
  "try_all w r v cs le s = (Next le', s') \<longleftrightarrow> fail_all w r v cs le s = Some (le', s')"
  by (induction cs arbitrary: le s) (auto split: prod.splits sum.splits)

lemma fail_all_append:
  "fail_all w r v (xs @ ys) le s =
     (case fail_all w r v xs le s of None \<Rightarrow> None | Some (le1, s1) \<Rightarrow> fail_all w r v ys le1 s1)"
  by (induction xs arbitrary: le s) (auto split: prod.splits sum.splits)

lemma fail_all_created_inputs:
  "fail_all w r v cs le s = Some (le', s') \<Longrightarrow>
     created_inputs (trace s') = created_inputs (trace s) @ cs"
proof (induction cs arbitrary: le s)
  case Nil
  then show ?case by simp
next
  case (Cons c cs)
  obtain r1 s1 where a: "attempt w r v (fst c) (fst (snd c)) (snd (snd c)) s = (r1, s1)"
    by (cases "attempt w r v (fst c) (fst (snd c)) (snd (snd c)) s")
  from Cons.prems a obtain e where "r1 = Inl e" "fail_all w r v cs (Some e) s1 = Some (le', s')"
    by (cases r1) simp_all
  from Cons.IH [OF this(2)] attempt_created_inputs [OF a] show ?case by simp
qed

lemma fail_all_last:
  assumes "fail_all w r v (cs @ [c]) le s = Some (le', s')"
  shows "\<exists>le1 s1 e. fail_all w r v cs le s = Some (le1, s1)
     \<and> attempt w r v (fst c) (fst (snd c)) (snd (snd c)) s1 = (Inl e, s') \<and> le' = Some e"
  using assms
  by (auto simp: fail_all_append split: option.splits prod.splits sum.splits)

lemma attempt_row_last:
  assumes "uas \<noteq> []"
  shows "concat (map (\<lambda>ua. [(Structured, ca, ua), (Positional, ca, ua)]) uas) \<noteq> []"
    and "last (concat (map (\<lambda>ua. [(Structured, ca, ua), (Positional, ca, ua)]) uas))
          = (Positional, ca, last uas)"
  using assms by (induction uas rule: rev_induct) simp_all

lemma attempt_order_last:
  assumes "cas \<noteq> []" "uas \<noteq> []"
  shows "attempt_order cas uas = butlast (attempt_order cas uas) @ [(Positional, last cas, last uas)]"
proof -
  have "attempt_order cas uas \<noteq> [] \<and> last (attempt_order cas uas) = (Positional, last cas, last uas)"
    using assms(1)
  proof (induction cas rule: rev_induct)
    case Nil
    then show ?case by simp
  next
    case (snoc ca cas)
    have "attempt_order (cas @ [ca]) uas
        = attempt_order cas uas @ concat (map (\<lambda>ua. [(Structured, ca, ua), (Positional, ca, ua)]) uas)"
      by (simp add: attempt_order_def)
    with attempt_row_last [OF assms(2), of ca] show ?case by simp
  qed
  then show ?thesis by (metis append_butlast_last_id)
qed

theorem doEncrypt_mandatory_fields_witness:
  "fst (doEncrypt (stub_builder (Inr (Some (good_out\<lparr>o_handles := JArr []\<rparr>)))) 500 fresh)
      = Inl missing_handle
   \<and> fst (doEncrypt (stub_builder (Inr (Some (good_out\<lparr>o_inputProof := JPrim PNull\<rparr>)))) 500 fresh)
      = Inl missing_proof
   \<and> fst (doEncrypt (stub_builder (Inr (Some good_out))) 500 fresh)
      = Inr \<lparr> handle = JBytes [1, 2], attestation = JBytes [3] \<rparr>
   \<and> truthy (JBytes [1, 2]) \<and> truthy (JBytes [3])"
proof -
  have v: "fst (doEncrypt (stub_builder (Inr (Some good_out))) 500 fresh)
      = Inr \<lparr> handle = JBytes [1, 2], attestation = JBytes [3] \<rparr>"
    by (simp add: doEncrypt_result stub_builder_def good_out_def out_field_def js_or_def
        index0_def truthy_def truthy_prim_def Let_def)
  show ?thesis
    using
      doEncrypt_mandatory_fields
        [of "stub_builder (Inr (Some (good_out\<lparr>o_handles := JArr []\<rparr>)))" 500
          "Some (good_out\<lparr>o_handles := JArr []\<rparr>)" fresh]
      doEncrypt_mandatory_fields
        [of "stub_builder (Inr (Some (good_out\<lparr>o_inputProof := JPrim PNull\<rparr>)))" 500
          "Some (good_out\<lparr>o_inputProof := JPrim PNull\<rparr>)" fresh]
      doEncrypt_mandatory_fields [of "stub_builder (Inr (Some good_out))" 500 "Some good_out" fresh]
      v
    by (simp add: stub_builder_def good_out_def out_field_def js_or_def index0_def truthy_def
        truthy_prim_def)
qed

section \<open>Properties of the decrypt results\<close>

lemma map_throw_length: "map_throw f xs = Inr ys \<Longrightarrow> length ys = length xs"
  by (induction xs arbitrary: ys) (auto split: sum.splits)

lemma map_throw_nth:
  "map_throw f xs = Inr ys \<Longrightarrow> i < length xs \<Longrightarrow> f (xs ! i) = Inr (ys ! i)"
proof (induction xs arbitrary: ys i)
  case Nil
  then show ?case by simp
next
  case (Cons x xs)
  then show ?case by (cases i) (auto split: sum.splits)
qed

lemma map_throw_Inr: "(\<And>x. x \<in> set xs \<Longrightarrow> f x = Inr (g x)) \<Longrightarrow> map_throw f xs = Inr (map g xs)"
  by (induction xs) simp_all

lemma map_throw_Inl: "x \<in> set xs \<Longrightarrow> f x = Inl e \<Longrightarrow> \<exists>e'. map_throw f xs = Inl e'"
  by (induction xs) (auto split: sum.splits)

lemma map_throw_map: "map f xs = map (\<lambda>x. Inr (g x)) ys \<Longrightarrow> map_throw f xs = Inr (map g ys)"
proof (induction xs arbitrary: ys)
  case Nil
  then show ?case by simp
next
  case (Cons x xs)
  then show ?case by (cases ys) auto
qed

lemma lookup_handle_entry:
  assumes "BigInt v = Inr n"
    and "m h = Some v \<or> ((m h = None \<or> m h = Some PUndefined \<or> m h = Some PNull)
            \<and> m (js_String h) = Some v)"
  shows "lookup_handle (RObject m) h = Inr v"
proof -
  from assms(1) have "\<not> nullish v" by (auto simp: nullish_def BigInt_def)
  with assms(2) show ?thesis
    by (auto simp: lookup_handle_def prop_get_def nullish_def)
qed

lemma lookup_handle_missing:
  assumes "m h = None \<or> m h = Some PUndefined \<or> m h = Some PNull"
    and "m (js_String h) = None \<or> m (js_String h) = Some PUndefined \<or> m (js_String h) = Some PNull"
  shows "\<exists>v. lookup_handle (RObject m) h = Inr v \<and> BigInt v = Inl TypeError"
  using assms by (auto simp: lookup_handle_def prop_get_def nullish_def BigInt_def)

lemma decode_array: "decode_response handles (RArray vs) = map_throw BigInt vs"
  by (simp add: decode_response_def)

lemma decode_other:
  "\<forall>vs. out \<noteq> RArray vs \<Longrightarrow>
   decode_response handles out =
     map_throw (\<lambda>h. case lookup_handle out h of Inl e \<Rightarrow> Inl e | Inr v \<Rightarrow> BigInt v) handles"
  by (cases out) (auto simp: decode_response_def)

lemma decode_well_formed:
  assumes "(\<exists>vs. out = RArray vs \<and> map BigInt vs = map (\<lambda>h. Inr (uint (dec h))) handles)
     \<or> (\<exists>m. out = RObject m \<and> (\<forall>h\<in>set handles. \<exists>v. BigInt v = Inr (uint (dec h))
           \<and> (m h = Some v \<or> ((m h = None \<or> m h = Some PUndefined \<or> m h = Some PNull)
                \<and> m (js_String h) = Some v))))"
  shows "decode_response handles out = Inr (map (\<lambda>h. uint (dec h)) handles)"
  using assms
proof (elim disjE exE conjE)
  fix vs
  assume "out = RArray vs" "map BigInt vs = map (\<lambda>h. Inr (uint (dec h))) handles"
  then show ?thesis by (simp add: decode_array map_throw_map)
next
  fix m
  assume out: "out = RObject m"
    and ent: "\<forall>h\<in>set handles. \<exists>v. BigInt v = Inr (uint (dec h))
           \<and> (m h = Some v \<or> ((m h = None \<or> m h = Some PUndefined \<or> m h = Some PNull)
                \<and> m (js_String h) = Some v))"
  have "\<And>h. h \<in> set handles \<Longrightarrow>
      (case lookup_handle out h of Inl e \<Rightarrow> Inl e | Inr v \<Rightarrow> BigInt v) = Inr (uint (dec h))"
  proof -
    fix h
    assume "h \<in> set handles"
    with ent obtain v where v: "BigInt v = Inr (uint (dec h))"
      "m h = Some v \<or> ((m h = None \<or> m h = Some PUndefined \<or> m h = Some PNull)
                \<and> m (js_String h) = Some v)"
      by blast
    from lookup_handle_entry [OF v] v(1) out
    show "(case lookup_handle out h of Inl e \<Rightarrow> Inl e | Inr v \<Rightarrow> BigInt v) = Inr (uint (dec h))"
      by simp
  qed
  then have "map_throw (\<lambda>h. case lookup_handle out h of Inl e \<Rightarrow> Inl e | Inr v \<Rightarrow> BigInt v) handles
      = Inr (map (\<lambda>h. uint (dec h)) handles)"
    by (rule map_throw_Inr)
  with out show ?thesis by (simp add: decode_response_def)
qed

lemma userDecrypt_decode:
  "request_userDecrypt w handles ua ca s = (Inr out, s') \<Longrightarrow>
     userDecrypt w handles ua ca s = (decode_response handles out, s')"
  by (simp add: userDecrypt_def bind_def lift_def)

lemma publicDecrypt_decode:
  "request_publicDecrypt w handles s = (Inr out, s') \<Longrightarrow>
     publicDecrypt w handles s = (decode_response handles out, s')"
  by (simp add: publicDecrypt_def bind_def lift_def)

lemma userDecrypt_Inr:
  "userDecrypt w handles ua ca s = (Inr ys, s') \<Longrightarrow>
     \<exists>out. request_userDecrypt w handles ua ca s = (Inr out, s')
        \<and> decode_response handles out = Inr ys"
  by (auto simp: userDecrypt_def bind_def lift_def split: prod.splits sum.splits)

lemma publicDecrypt_Inr:
  "publicDecrypt w handles s = (Inr ys, s') \<Longrightarrow>
     \<exists>out. request_publicDecrypt w handles s = (Inr out, s')
        \<and> decode_response handles out = Inr ys"
  by (auto simp: publicDecrypt_def bind_def lift_def split: prod.splits sum.splits)

text \<open>
  Claim C1. Let the backend's response hold the decrypted value \<open>dec h\<close>, an unsigned
  64-bit integer, for every requested handle \<open>h\<close>: either as an array with the values in
  the order of the handles, or as a mapping with the value under the handle (under its
  string form when the entry under the handle itself is missing or nullish). Then
  \<open>userDecrypt\<close> and \<open>publicDecrypt\<close> return the list of these values: it is as long as
  the handle list, its \<open>i\<close>-th element is the value of the \<open>i\<close>-th handle, and each
  element lies in the unsigned 64-bit range.
\<close>

theorem decrypt_results_in_order:
  fixes dec :: "jstring \<Rightarrow> 64 word"
  assumes "(\<exists>vs. out = RArray vs \<and> map BigInt vs = map (\<lambda>h. Inr (uint (dec h))) handles)
     \<or> (\<exists>m. out = RObject m \<and> (\<forall>h\<in>set handles. \<exists>v. BigInt v = Inr (uint (dec h))
           \<and> (m h = Some v \<or> ((m h = None \<or> m h = Some PUndefined \<or> m h = Some PNull)
                \<and> m (js_String h) = Some v))))"
  shows "(\<forall>w ua ca s s'. request_userDecrypt w handles ua ca s = (Inr out, s')
            \<longrightarrow> userDecrypt w handles ua ca s = (Inr (map (\<lambda>h. uint (dec h)) handles), s'))
     \<and> (\<forall>w s s'. request_publicDecrypt w handles s = (Inr out, s')
            \<longrightarrow> publicDecrypt w handles s = (Inr (map (\<lambda>h. uint (dec h)) handles), s'))
     \<and> length (map (\<lambda>h. uint (dec h)) handles) = length handles
     \<and> (\<forall>i<length handles. map (\<lambda>h. uint (dec h)) handles ! i = uint (dec (handles ! i))
            \<and> 0 \<le> map (\<lambda>h. uint (dec h)) handles ! i
            \<and> map (\<lambda>h. uint (dec h)) handles ! i < 2 ^ 64)"
proof -
  have d: "decode_response handles out = Inr (map (\<lambda>h. uint (dec h)) handles)"
    using assms by (rule decode_well_formed)
  have r: "uint (dec h) < 2 ^ 64" for h
    using uint_lt2p [of "dec h"] by simp
  show ?thesis
    using d r by (simp add: userDecrypt_decode publicDecrypt_decode)
qed

lemma fresh_initRelayer:
  "initRelayer (stub_world create out) fresh =
     (Inr \<lparr> inst_id = 0, has_generateKeypair = True \<rparr>,
      \<lparr> relayer = Some \<lparr> inst_id = 0, has_generateKeypair = True \<rparr>,
        ud_kp = Some \<lparr> publicKey = lit ''pub'', privateKey = lit ''priv'' \<rparr>,
        trace = [EvInitSDK, EvCreateInstance, EvGenerateKeypair 0] \<rparr>)"
  by (simp add: initRelayer_def fresh_def stub_world_def bind_def ext_def void_def
      ensure_keypair_def generate_keypair_def ret_def)

lemma fresh_request_publicDecrypt:
  "request_publicDecrypt (stub_world create out) handles fresh =
     (Inr out,
      \<lparr> relayer = Some \<lparr> inst_id = 0, has_generateKeypair = True \<rparr>,
        ud_kp = Some \<lparr> publicKey = lit ''pub'', privateKey = lit ''priv'' \<rparr>,
        trace = [EvInitSDK, EvCreateInstance, EvGenerateKeypair 0, EvPublicDecrypt 0 handles] \<rparr>)"
  by (simp add: request_publicDecrypt_def bind_def fresh_initRelayer ext_def)
    (simp add: stub_world_def)

theorem decrypt_results_in_order_witness:
  "fst (publicDecrypt (stub_world create_never example_mapping) [handle_A, handle_B] fresh)
     = Inr [7, 9]"
proof -
  have "\<forall>h\<in>set [handle_A, handle_B]. \<exists>v. BigInt v = Inr (uint (example_values h))
      \<and> ([handle_A \<mapsto> PInt 7, handle_B \<mapsto> PInt 9] h = Some v
          \<or> (([handle_A \<mapsto> PInt 7, handle_B \<mapsto> PInt 9] h = None
               \<or> [handle_A \<mapsto> PInt 7, handle_B \<mapsto> PInt 9] h = Some PUndefined
               \<or> [handle_A \<mapsto> PInt 7, handle_B \<mapsto> PInt 9] h = Some PNull)
              \<and> [handle_A \<mapsto> PInt 7, handle_B \<mapsto> PInt 9] (js_String h) = Some v))"
    by (simp add: handle_A_def handle_B_def example_values_def lit_def BigInt_def)
  then have "(\<exists>vs. example_mapping = RArray vs
        \<and> map BigInt vs = map (\<lambda>h. Inr (uint (example_values h))) [handle_A, handle_B])
     \<or> (\<exists>m. example_mapping = RObject m \<and> (\<forall>h\<in>set [handle_A, handle_B].
           \<exists>v. BigInt v = Inr (uint (example_values h))
           \<and> (m h = Some v \<or> ((m h = None \<or> m h = Some PUndefined \<or> m h = Some PNull)
                \<and> m (js_String h) = Some v))))"
    unfolding example_mapping_def by blast
  from decrypt_results_in_order [OF this] fresh_request_publicDecrypt
  have "fst (publicDecrypt (stub_world create_never example_mapping) [handle_A, handle_B] fresh)
     = Inr (map (\<lambda>h. uint (example_values h)) [handle_A, handle_B])"
    by simp
  then show ?thesis
    by (simp add: example_values_def handle_A_def handle_B_def lit_def)
qed

lemma decode_nothing_partial:
  assumes "decode_response handles out = Inr ys"
  shows "case out of
           RArray vs \<Rightarrow> length ys = length vs \<and> (\<forall>i<length vs. BigInt (vs ! i) = Inr (ys ! i))
         | _ \<Rightarrow> length ys = length handles
               \<and> (\<forall>i<length handles. \<exists>v. lookup_handle out (handles ! i) = Inr v
                      \<and> BigInt v = Inr (ys ! i))"
proof (cases "\<exists>vs. out = RArray vs")
  case True
  then obtain vs where out: "out = RArray vs" by blast
  with assms have m: "map_throw BigInt vs = Inr ys" by (simp add: decode_array)
  from map_throw_length [OF m] map_throw_nth [OF m] out show ?thesis by simp
next
  case False
  then have no: "\<forall>vs. out \<noteq> RArray vs" by blast
  let ?f = "\<lambda>h. case lookup_handle out h of Inl e \<Rightarrow> Inl e | Inr v \<Rightarrow> BigInt v"
  from assms decode_other [OF no] have m: "map_throw ?f handles = Inr ys" by simp
  have "\<exists>v. lookup_handle out (handles ! i) = Inr v \<and> BigInt v = Inr (ys ! i)"
    if "i < length handles" for i
    using map_throw_nth [OF m that] by (cases "lookup_handle out (handles ! i)") simp_all
  with map_throw_length [OF m] no show ?thesis by (cases out) simp_all
qed

lemma decode_missing_entry:
  assumes "h \<in> set handles"
    and "m h = None \<or> m h = Some PUndefined \<or> m h = Some PNull"
    and "m (js_String h) = None \<or> m (js_String h) = Some PUndefined \<or> m (js_String h) = Some PNull"
  shows "\<exists>e. decode_response handles (RObject m) = Inl e"
proof -
  from lookup_handle_missing [OF assms(2,3)]
  have "(case lookup_handle (RObject m) h of Inl e \<Rightarrow> Inl e | Inr v \<Rightarrow> BigInt v) = Inl TypeError"
    by auto
  from map_throw_Inl
    [of h handles "\<lambda>h. case lookup_handle (RObject m) h of Inl e \<Rightarrow> Inl e | Inr v \<Rightarrow> BigInt v",
      OF assms(1) this]
  show ?thesis
    by (simp add: decode_response_def)
qed

text \<open>
  Claim C9, as amended. \<open>userDecrypt\<close> and \<open>publicDecrypt\<close> return values only as a
  whole: when the response is not an array, a returned list has one value for every
  requested handle, each converted from that handle's entry; when the response is an
  array, a returned list has one value for every element of the array (the array is not
  compared with the handle list). When a mapping has no entry, or a nullish one, for a
  requested handle under the handle and under its string form, the call throws.
\<close>

theorem decrypt_all_or_nothing:
  "(\<forall>ys s'. publicDecrypt w handles s = (Inr ys, s') \<longrightarrow>
      (\<exists>out. request_publicDecrypt w handles s = (Inr out, s') \<and>
         (case out of
            RArray vs \<Rightarrow> length ys = length vs \<and> (\<forall>i<length vs. BigInt (vs ! i) = Inr (ys ! i))
          | _ \<Rightarrow> length ys = length handles
                \<and> (\<forall>i<length handles. \<exists>v. lookup_handle out (handles ! i) = Inr v
                       \<and> BigInt v = Inr (ys ! i)))))
   \<and> (\<forall>ys s'. userDecrypt w handles ua ca s = (Inr ys, s') \<longrightarrow>
      (\<exists>out. request_userDecrypt w handles ua ca s = (Inr out, s') \<and>
         (case out of
            RArray vs \<Rightarrow> length ys = length vs \<and> (\<forall>i<length vs. BigInt (vs ! i) = Inr (ys ! i))
          | _ \<Rightarrow> length ys = length handles
                \<and> (\<forall>i<length handles. \<exists>v. lookup_handle out (handles ! i) = Inr v
                       \<and> BigInt v = Inr (ys ! i)))))
   \<and> (\<forall>m h. h \<in> set handles
        \<and> (m h = None \<or> m h = Some PUndefined \<or> m h = Some PNull)
        \<and> (m (js_String h) = None \<or> m (js_String h) = Some PUndefined
             \<or> m (js_String h) = Some PNull)
        \<longrightarrow> (\<forall>s'. request_publicDecrypt w handles s = (Inr (RObject m), s')
                \<longrightarrow> (\<exists>e. publicDecrypt w handles s = (Inl e, s')))
          \<and> (\<forall>s'. request_userDecrypt w handles ua ca s = (Inr (RObject m), s')
                \<longrightarrow> (\<exists>e. userDecrypt w handles ua ca s = (Inl e, s'))))"
proof (intro conjI allI impI)
  fix ys s'
  assume "publicDecrypt w handles s = (Inr ys, s')"
  from publicDecrypt_Inr [OF this] obtain out where
    "request_publicDecrypt w handles s = (Inr out, s')" "decode_response handles out = Inr ys"
    by blast
  with decode_nothing_partial [of handles out ys]
  show "\<exists>out. request_publicDecrypt w handles s = (Inr out, s') \<and>
         (case out of
            RArray vs \<Rightarrow> length ys = length vs \<and> (\<forall>i<length vs. BigInt (vs ! i) = Inr (ys ! i))
          | _ \<Rightarrow> length ys = length handles
                \<and> (\<forall>i<length handles. \<exists>v. lookup_handle out (handles ! i) = Inr v
                       \<and> BigInt v = Inr (ys ! i)))"
    by blast
next
  fix ys s'
  assume "userDecrypt w handles ua ca s = (Inr ys, s')"
  from userDecrypt_Inr [OF this] obtain out where
    "request_userDecrypt w handles ua ca s = (Inr out, s')" "decode_response handles out = Inr ys"
    by blast
  with decode_nothing_partial [of handles out ys]
  show "\<exists>out. request_userDecrypt w handles ua ca s = (Inr out, s') \<and>
         (case out of
            RArray vs \<Rightarrow> length ys = length vs \<and> (\<forall>i<length vs. BigInt (vs ! i) = Inr (ys ! i))
          | _ \<Rightarrow> length ys = length handles
                \<and> (\<forall>i<length handles. \<exists>v. lookup_handle out (handles ! i) = Inr v
                       \<and> BigInt v = Inr (ys ! i)))"
    by blast
next
  fix m h s'
  assume a: "h \<in> set handles
        \<and> (m h = None \<or> m h = Some PUndefined \<or> m h = Some PNull)
        \<and> (m (js_String h) = None \<or> m (js_String h) = Some PUndefined
             \<or> m (js_String h) = Some PNull)"
    and r: "request_publicDecrypt w handles s = (Inr (RObject m), s')"
  from a decode_missing_entry [of h handles m] obtain e where
    "decode_response handles (RObject m) = Inl e" by blast
  with publicDecrypt_decode [OF r] show "\<exists>e. publicDecrypt w handles s = (Inl e, s')" by simp
next
  fix m h s'
  assume a: "h \<in> set handles
        \<and> (m h = None \<or> m h = Some PUndefined \<or> m h = Some PNull)
        \<and> (m (js_String h) = None \<or> m (js_String h) = Some PUndefined
             \<or> m (js_String h) = Some PNull)"
    and r: "request_userDecrypt w handles ua ca s = (Inr (RObject m), s')"
  from a decode_missing_entry [of h handles m] obtain e where
    "decode_response handles (RObject m) = Inl e" by blast
  with userDecrypt_decode [OF r] show "\<exists>e. userDecrypt w handles ua ca s = (Inl e, s')" by simp
qed

text \<open>
  The claim C9 as it was stated fails for an array: two handles are requested, the
  response holds one value, and \<open>publicDecrypt\<close> returns that one value.
\<close>

theorem decrypt_partial_array_counterexample:
  "fst (publicDecrypt (stub_world create_never (RArray [PInt 7])) [handle_A, handle_B] fresh)
     = Inr [7]"
  using publicDecrypt_decode [OF fresh_request_publicDecrypt, of create_never "RArray [PInt 7]" "[handle_A, handle_B]"]
  by (simp add: decode_array BigInt_def)

theorem decrypt_all_or_nothing_witness:
  "fst (publicDecrypt (stub_world create_never example_mapping) [handle_B, handle_A] fresh)
      = Inr [9, 7]
   \<and> fst (publicDecrypt (stub_world create_never (RObject [handle_A \<mapsto> PInt 7]))
         [handle_A, handle_B] fresh) = Inl TypeError"
proof -
  let ?w1 = "stub_world create_never example_mapping"
  let ?w2 = "stub_world create_never (RObject [handle_A \<mapsto> PInt 7])"
  obtain r1 s1 where p1: "publicDecrypt ?w1 [handle_B, handle_A] fresh = (r1, s1)"
    by (cases "publicDecrypt ?w1 [handle_B, handle_A] fresh")
  have e1: "r1 = Inr [9, 7]"
    using p1 publicDecrypt_decode [OF fresh_request_publicDecrypt, of create_never example_mapping "[handle_B, handle_A]"]
    by (simp add: example_mapping_def decode_response_def lookup_handle_def prop_get_def
        nullish_def BigInt_def handle_A_def handle_B_def lit_def)
  obtain r2 s2 where p2: "publicDecrypt ?w2 [handle_A, handle_B] fresh = (r2, s2)"
    by (cases "publicDecrypt ?w2 [handle_A, handle_B] fresh")
  have ne: "handle_A \<noteq> handle_B" by (simp add: handle_A_def handle_B_def lit_def)
  have e2: "r2 = Inl TypeError"
    using p2 publicDecrypt_decode [OF fresh_request_publicDecrypt, of create_never "RObject [handle_A \<mapsto> PInt 7]" "[handle_A, handle_B]"] ne
    by (simp add: decode_response_def lookup_handle_def prop_get_def
        nullish_def BigInt_def js_String_def)
  from decrypt_all_or_nothing [of ?w1 "[handle_B, handle_A]" fresh ArgUndefined ArgUndefined]
    decrypt_all_or_nothing [of ?w2 "[handle_A, handle_B]" fresh ArgUndefined ArgUndefined]
  show ?thesis using p1 e1 p2 e2 by simp
qed

section \<open>Properties of initRelayer\<close>

lemma initRelayer_uncached:
  assumes "relayer s = None" "has_ethereum w"
  shows "initRelayer w s =
     (case w_initSDK w (trace s) of
        Some e \<Rightarrow> (Inl e, s\<lparr>trace := trace s @ [EvInitSDK]\<rparr>)
      | None \<Rightarrow>
          (case w_createInstance w (trace s @ [EvInitSDK]) of
             Inl e \<Rightarrow> (Inl e, s\<lparr>trace := trace s @ [EvInitSDK, EvCreateInstance]\<rparr>)
           | Inr i \<Rightarrow>
               (case ensure_keypair w i
                       (s\<lparr>trace := trace s @ [EvInitSDK, EvCreateInstance], relayer := Some i\<rparr>) of
                  (Inl e, s') \<Rightarrow> (Inl e, s')
                | (Inr kp, s') \<Rightarrow> (Inr i, s'))))"
  using assms
  by (simp add: initRelayer_def bind_def ext_def void_def ret_def
      split: option.splits sum.splits prod.splits)

lemma ensure_keypair_relayer:
  "ensure_keypair w i s = (res, s') \<Longrightarrow> relayer s' = relayer s"
  by (auto simp: ensure_keypair_def generate_keypair_def bind_def ext_def
      split: option.splits if_splits sum.splits)

lemma initRelayer_cached: "relayer s = Some r \<Longrightarrow> initRelayer w s = (Inr r, s)"
  by (simp add: initRelayer_def)

lemma initRelayer_no_wallet:
  "relayer s = None \<Longrightarrow> \<not> has_ethereum w \<Longrightarrow> initRelayer w s = (Inl metamask_not_found, s)"
  by (simp add: initRelayer_def)

lemma initRelayer_caches_created:
  assumes "initRelayer w s = (res, s')"
  shows "relayer s' = relayer s
     \<or> (\<exists>i. w_createInstance w (trace s @ [EvInitSDK]) = Inr i \<and> relayer s' = Some i)"
proof (cases "relayer s")
  case (Some r)
  with assms show ?thesis by (simp add: initRelayer_cached)
next
  case None
  show ?thesis
  proof (cases "has_ethereum w")
    case False
    with None assms show ?thesis by (simp add: initRelayer_no_wallet)
  next
    case True
    show ?thesis
    proof (cases "w_initSDK w (trace s)")
      case (Some e)
      with assms None True show ?thesis by (auto simp: initRelayer_uncached)
    next
      case sdk: None
      show ?thesis
      proof (cases "w_createInstance w (trace s @ [EvInitSDK])")
        case (Inl e)
        with assms None True sdk show ?thesis by (auto simp: initRelayer_uncached)
      next
        case (Inr i)
        obtain rk sk where k: "ensure_keypair w i
            (s\<lparr>trace := trace s @ [EvInitSDK, EvCreateInstance], relayer := Some i\<rparr>) = (rk, sk)"
          by (cases "ensure_keypair w i
            (s\<lparr>trace := trace s @ [EvInitSDK, EvCreateInstance], relayer := Some i\<rparr>)")
        from ensure_keypair_relayer [OF k] have "relayer sk = Some i" by simp
        moreover from assms None True sdk Inr k have "s' = sk"
          by (auto simp: initRelayer_uncached split: sum.splits)
        ultimately show ?thesis using Inr by simp
      qed
    qed
  qed
qed

text \<open>
  Claim C10. When no session is cached and \<^verbatim>\<open>createInstance\<close> throws, \<open>initRelayer\<close>
  throws the same value and leaves \<^verbatim>\<open>_relayer\<close> unset and \<^verbatim>\<open>_ud_kp\<close> as it was. The next
  call starts again with \<^verbatim>\<open>initSDK\<close> and, when that succeeds, calls \<^verbatim>\<open>createInstance\<close>
  again; an instance created then is the one cached. In every call, \<^verbatim>\<open>_relayer\<close> either
  keeps its value or becomes an instance that \<^verbatim>\<open>createInstance\<close> resolved to. A task that
  resumes from a rejected \<^verbatim>\<open>createInstance\<close> changes nothing.
\<close>

theorem initRelayer_failed_creation_not_cached:
  assumes "relayer s = None" and "has_ethereum w" and "w_initSDK w (trace s) = None"
    and "w_createInstance w (trace s @ [EvInitSDK]) = Inl e"
  shows "initRelayer w s = (Inl e, s\<lparr>trace := trace s @ [EvInitSDK, EvCreateInstance]\<rparr>)
     \<and> relayer (snd (initRelayer w s)) = None
     \<and> ud_kp (snd (initRelayer w s)) = ud_kp s
     \<and> (\<exists>rest. trace (snd (initRelayer w (snd (initRelayer w s))))
            = trace (snd (initRelayer w s)) @ EvInitSDK # rest)
     \<and> (\<forall>i. w_initSDK w (trace (snd (initRelayer w s))) = None
            \<and> w_createInstance w (trace (snd (initRelayer w s)) @ [EvInitSDK]) = Inr i
          \<longrightarrow> relayer (snd (initRelayer w (snd (initRelayer w s)))) = Some i
            \<and> (\<exists>rest. trace (snd (initRelayer w (snd (initRelayer w s))))
                  = trace (snd (initRelayer w s)) @ EvInitSDK # EvCreateInstance # rest))
     \<and> (\<forall>s0 res s1. initRelayer w s0 = (res, s1) \<longrightarrow>
            relayer s1 = relayer s0
            \<or> (\<exists>i. w_createInstance w (trace s0 @ [EvInitSDK]) = Inr i \<and> relayer s1 = Some i))
     \<and> init_step w (AwaitCreateInstance (Inl e)) s = (Settled (Inl e), s)"
proof -
  let ?s' = "s\<lparr>trace := trace s @ [EvInitSDK, EvCreateInstance]\<rparr>"
  have first: "initRelayer w s = (Inl e, ?s')"
    using assms by (simp add: initRelayer_uncached)
  have again: "relayer ?s' = None" using assms(1) by simp
  have a: "\<exists>rest. trace (snd (initRelayer w ?s')) = trace ?s' @ EvInitSDK # rest"
  proof -
    let ?P = "\<lambda>ev. True"
    show ?thesis
    proof (cases "w_initSDK w (trace ?s')")
      case (Some e')
      then show ?thesis using again assms(2) by (simp add: initRelayer_uncached)
    next
      case sdk: None
      show ?thesis
      proof (cases "w_createInstance w (trace ?s' @ [EvInitSDK])")
        case (Inl e')
        then show ?thesis using again assms(2) sdk by (simp add: initRelayer_uncached)
      next
        case (Inr i)
        obtain rk sk where k: "ensure_keypair w i
            (?s'\<lparr>trace := trace ?s' @ [EvInitSDK, EvCreateInstance], relayer := Some i\<rparr>) = (rk, sk)"
          by (cases "ensure_keypair w i
            (?s'\<lparr>trace := trace ?s' @ [EvInitSDK, EvCreateInstance], relayer := Some i\<rparr>)")
        have "appends ?P (ensure_keypair w i)" by (rule appends_ensure_keypair) simp_all
        from appendsD [OF this k] obtain new where
          "trace sk = trace ?s' @ EvInitSDK # EvCreateInstance # new" by auto
        moreover have "snd (initRelayer w ?s') = sk"
          using again assms(2) sdk Inr k by (auto simp: initRelayer_uncached split: sum.splits)
        ultimately show ?thesis by simp
      qed
    qed
  qed
  have b: "relayer (snd (initRelayer w ?s')) = Some i
      \<and> (\<exists>rest. trace (snd (initRelayer w ?s')) = trace ?s' @ EvInitSDK # EvCreateInstance # rest)"
    if sdk: "w_initSDK w (trace ?s') = None"
      and Inr: "w_createInstance w (trace ?s' @ [EvInitSDK]) = Inr i" for i
  proof -
    let ?P = "\<lambda>ev. True"
    obtain rk sk where k: "ensure_keypair w i
        (?s'\<lparr>trace := trace ?s' @ [EvInitSDK, EvCreateInstance], relayer := Some i\<rparr>) = (rk, sk)"
      by (cases "ensure_keypair w i
        (?s'\<lparr>trace := trace ?s' @ [EvInitSDK, EvCreateInstance], relayer := Some i\<rparr>)")
    have "appends ?P (ensure_keypair w i)" by (rule appends_ensure_keypair) simp_all
    from appendsD [OF this k] obtain new where
      "trace sk = trace ?s' @ EvInitSDK # EvCreateInstance # new" by auto
    moreover have "snd (initRelayer w ?s') = sk"
      using again assms(2) sdk Inr k by (auto simp: initRelayer_uncached split: sum.splits)
    moreover from ensure_keypair_relayer [OF k] have "relayer sk = Some i" by simp
    ultimately show ?thesis by simp
  qed
  have c: "\<forall>s0 res s1. initRelayer w s0 = (res, s1) \<longrightarrow>
            relayer s1 = relayer s0
            \<or> (\<exists>i. w_createInstance w (trace s0 @ [EvInitSDK]) = Inr i \<and> relayer s1 = Some i)"
    using initRelayer_caches_created by blast
  have d: "init_step w (AwaitCreateInstance (Inl e)) s = (Settled (Inl e), s)"
    by (simp add: init_step_def)
  show ?thesis
    unfolding first snd_conv using a b c d assms(1) by simp
qed

theorem initRelayer_failed_creation_not_cached_witness:
  "fst (initRelayer flaky_world fresh) = Inl (Error (lit ''connection refused''))
   \<and> relayer (snd (initRelayer flaky_world fresh)) = None
   \<and> relayer (snd (initRelayer flaky_world (snd (initRelayer flaky_world fresh))))
       = Some \<lparr> inst_id = 1, has_generateKeypair = False \<rparr>"
proof -
  have h: "relayer fresh = None" "has_ethereum flaky_world"
    "w_initSDK flaky_world (trace fresh) = None"
    "w_createInstance flaky_world (trace fresh @ [EvInitSDK]) = Inl (Error (lit ''connection refused''))"
    by (simp_all add: fresh_def flaky_world_def stub_world_def)
  let ?s' = "fresh\<lparr>trace := trace fresh @ [EvInitSDK, EvCreateInstance]\<rparr>"
  note t = initRelayer_failed_creation_not_cached [OF h]
  from t have first: "initRelayer flaky_world fresh = (Inl (Error (lit ''connection refused'')), ?s')"
    by (rule conjunct1)
  have g: "w_initSDK flaky_world (trace ?s') = None
      \<and> w_createInstance flaky_world (trace ?s' @ [EvInitSDK])
          = Inr \<lparr> inst_id = 1, has_generateKeypair = False \<rparr>"
    by (simp add: fresh_def flaky_world_def stub_world_def)
  from t have "\<forall>i. w_initSDK flaky_world (trace (snd (initRelayer flaky_world fresh))) = None
            \<and> w_createInstance flaky_world (trace (snd (initRelayer flaky_world fresh)) @ [EvInitSDK])
                = Inr i
          \<longrightarrow> relayer (snd (initRelayer flaky_world (snd (initRelayer flaky_world fresh)))) = Some i
            \<and> (\<exists>rest. trace (snd (initRelayer flaky_world (snd (initRelayer flaky_world fresh))))
                  = trace (snd (initRelayer flaky_world fresh)) @ EvInitSDK # EvCreateInstance # rest)"
    by blast
  with g first
  have "relayer (snd (initRelayer flaky_world (snd (initRelayer flaky_world fresh))))
      = Some \<lparr> inst_id = 1, has_generateKeypair = False \<rparr>"
    by simp
  moreover have "relayer ?s' = None" by (simp add: fresh_def)
  ultimately show ?thesis using first by simp
qed

section \<open>Properties of encrypt64For\<close>

lemma encrypt64For_after_setup:
  assumes "initRelayer w s = (Inr r, s1)" and "ensureUserAddress w userAddress s1 = (Inr uaRaw, s2)"
  shows "encrypt64For w contractAddress userAddress v s =
     (if addressVariants (window_getAddress w) contractAddress = []
      then (Inl (invalid_contract contractAddress), s2)
      else if addressVariants (window_getAddress w) (ArgStr uaRaw) = []
      then (Inl (invalid_user uaRaw), s2)
      else (case try_all w r v
                   (attempt_order (addressVariants (window_getAddress w) contractAddress)
                      (addressVariants (window_getAddress w) (ArgStr uaRaw))) None s2 of
              (Return res, s') \<Rightarrow> (Inr res, s')
            | (Next lastErr, s') \<Rightarrow> (Inl (final_error lastErr), s')))"
  using assms
  by (simp add: encrypt64For_def bind_def Let_def throw_def ca_loop_try_all)

lemma setup_trace:
  assumes "initRelayer w s = (r1, s1)" and "ensureUserAddress w userAddress s1 = (r2, s2)"
  shows "\<exists>new. trace s2 = trace s @ new \<and> list_all is_session_event new"
proof -
  have "appends is_session_event (initRelayer w)"
    by (rule appends_initRelayer) (simp_all add: is_session_event_def)
  from appendsD [OF this assms(1)] obtain n1 where
    n1: "trace s1 = trace s @ n1" "list_all is_session_event n1" by blast
  have "appends is_session_event (ensureUserAddress w userAddress)"
    by (rule appends_ensureUserAddress) (simp add: is_session_event_def)
  from appendsD [OF this assms(2)] obtain n2 where
    "trace s2 = trace s1 @ n2" "list_all is_session_event n2" by blast
  with n1 have "trace s2 = trace s @ (n1 @ n2) \<and> list_all is_session_event (n1 @ n2)" by simp
  then show ?thesis by blast
qed

lemma session_events_create_nothing:
  "list_all is_session_event new \<Longrightarrow> created_inputs new = []"
proof (rule created_inputs_none)
  assume "list_all is_session_event new"
  then show "list_all (\<lambda>ev. created_input ev = []) new"
    by (induction new) (auto simp: is_session_event_def created_input_def split: event.splits)
qed

lemma ensureUserAddress_given:
  "js_trim (arg_or_empty userAddress) \<noteq> [] \<Longrightarrow>
   ensureUserAddress w userAddress s = (Inr (js_trim (arg_or_empty userAddress)), s)"
  by (simp add: ensureUserAddress_def ret_def)

text \<open>
  Claim C4, as amended. Let session initialisation and the resolution of the user
  address succeed, and let the contract address or the resolved user address have no
  candidate. Then \<open>encrypt64For\<close> throws the invalid-address error that names the
  offending string (the contract address as it was given, checked first; else the
  resolved user address), in the state these two steps left: up to the failure only
  session and wallet calls were made, no \<^verbatim>\<open>createEncryptedInput\<close> call, and no call at all
  when the session was cached and the user address was given.
\<close>

theorem encrypt64For_invalid_address:
  assumes "initRelayer w s = (Inr r, s1)"
    and "ensureUserAddress w userAddress s1 = (Inr uaRaw, s2)"
    and "addressVariants (window_getAddress w) contractAddress = []
         \<or> addressVariants (window_getAddress w) (ArgStr uaRaw) = []"
  shows "encrypt64For w contractAddress userAddress v s =
      (Inl (if addressVariants (window_getAddress w) contractAddress = []
            then Error (lit ''Contract address looks invalid: '' @ template contractAddress)
            else Error (lit ''User address looks invalid: '' @ uaRaw)), s2)
     \<and> (\<exists>new. trace s2 = trace s @ new \<and> list_all is_session_event new)
     \<and> created_inputs (trace s2) = created_inputs (trace s)
     \<and> (relayer s \<noteq> None \<and> js_trim (arg_or_empty userAddress) \<noteq> [] \<longrightarrow> s2 = s)"
proof -
  have a: "encrypt64For w contractAddress userAddress v s =
      (Inl (if addressVariants (window_getAddress w) contractAddress = []
            then Error (lit ''Contract address looks invalid: '' @ template contractAddress)
            else Error (lit ''User address looks invalid: '' @ uaRaw)), s2)"
    using assms(3)
    by (auto simp: encrypt64For_after_setup [OF assms(1,2)] invalid_contract_def invalid_user_def)
  from setup_trace [OF assms(1,2)] obtain new where
    n: "trace s2 = trace s @ new" "list_all is_session_event new" by blast
  then have c: "created_inputs (trace s2) = created_inputs (trace s)"
    by (simp add: created_inputs_append session_events_create_nothing)
  have d: "s2 = s" if "relayer s \<noteq> None" "js_trim (arg_or_empty userAddress) \<noteq> []"
  proof -
    from that(1) assms(1) have "s1 = s" by (auto simp: initRelayer_cached)
    with that(2) assms(2) show ?thesis by (simp add: ensureUserAddress_given)
  qed
  from a n c d show ?thesis by blast
qed

lemma nope_message:
  "invalid_contract (ArgStr not_an_address) = Error (lit ''Contract address looks invalid: nope'')"
  by (simp add: invalid_contract_def template_def not_an_address_def lit_def)

lemma nope_invalid: "addressVariants example_getAddress (ArgStr not_an_address) = []"
  by (simp add: addressVariants_def clean_address_def arg_or_empty_def strip_zwsp_def js_trim_def
      not_an_address_def lit_def is_js_space_def checksum_step_def example_getAddress_def toLowerCase_def
      lower_unit_def example_lower_def is_address_mixed_def is_address_lower_def
      matches_0x40_def set_spread_Nil)

lemma user_trimmed: "js_trim example_user = example_user"
  by (simp add: js_trim_def example_user_def lit_def is_js_space_def)

lemma ensure_example_user:
  "ensureUserAddress w (ArgStr example_user) s = (Inr example_user, s)"
proof -
  have a: "js_trim (arg_or_empty (ArgStr example_user)) = example_user"
    by (simp add: arg_or_empty_def user_trimmed)
  have "example_user \<noteq> []" by (simp add: example_user_def lit_def)
  with a ensureUserAddress_given [of "ArgStr example_user" w s] show ?thesis by simp
qed

lemma stub_getAddress: "window_getAddress (stub_world create out) = example_getAddress"
  by (simp add: window_getAddress_def stub_world_def)

text \<open>
  The claim C4 as it was stated fails twice for the address \<^verbatim>\<open>nope\<close>, which has no
  candidate. Without a wallet and without a cached session the error is not the
  invalid-address error but \<^verbatim>\<open>MetaMask not found\<close>. With a wallet and without a cached
  session the invalid-address error comes after three calls to the backend: \<^verbatim>\<open>initSDK\<close>,
  \<^verbatim>\<open>createInstance\<close> and \<^verbatim>\<open>generateKeypair\<close>.
\<close>

theorem encrypt64For_invalid_address_counterexample:
  "addressVariants
     (window_getAddress ((stub_world create_never example_mapping)\<lparr>has_ethereum := False\<rparr>))
     (ArgStr not_an_address) = []
   \<and> fst (encrypt64For ((stub_world create_never example_mapping)\<lparr>has_ethereum := False\<rparr>)
          (ArgStr not_an_address) (ArgStr example_user) 500 fresh)
       = Inl (Error (lit ''MetaMask not found''))
   \<and> encrypt64For (stub_world create_never example_mapping)
          (ArgStr not_an_address) (ArgStr example_user) 500 fresh
       = (Inl (Error (lit ''Contract address looks invalid: nope'')),
          \<lparr> relayer = Some \<lparr> inst_id = 0, has_generateKeypair = True \<rparr>,
            ud_kp = Some \<lparr> publicKey = lit ''pub'', privateKey = lit ''priv'' \<rparr>,
            trace = [EvInitSDK, EvCreateInstance, EvGenerateKeypair 0] \<rparr>)"
proof -
  let ?w0 = "(stub_world create_never example_mapping)\<lparr>has_ethereum := False\<rparr>"
  have g: "window_getAddress ?w0 = example_getAddress"
    by (simp add: window_getAddress_def stub_world_def)
  have a: "fst (encrypt64For ?w0 (ArgStr not_an_address) (ArgStr example_user) 500 fresh)
       = Inl (Error (lit ''MetaMask not found''))"
    by (simp add: encrypt64For_def bind_def initRelayer_def fresh_def metamask_not_found_def)
  note u = ensure_example_user [of "stub_world create_never example_mapping"]
  have b: "encrypt64For (stub_world create_never example_mapping)
          (ArgStr not_an_address) (ArgStr example_user) 500 fresh
       = (Inl (Error (lit ''Contract address looks invalid: nope'')),
          \<lparr> relayer = Some \<lparr> inst_id = 0, has_generateKeypair = True \<rparr>,
            ud_kp = Some \<lparr> publicKey = lit ''pub'', privateKey = lit ''priv'' \<rparr>,
            trace = [EvInitSDK, EvCreateInstance, EvGenerateKeypair 0] \<rparr>)"
    by (simp add: encrypt64For_after_setup [OF fresh_initRelayer u] stub_getAddress nope_invalid
        nope_message)
  from a b g nope_invalid show ?thesis by simp
qed

theorem encrypt64For_invalid_address_witness:
  "encrypt64For (stub_world create_never example_mapping)
      (ArgStr not_an_address) (ArgStr example_user) 500
      \<lparr> relayer = Some \<lparr> inst_id = 0, has_generateKeypair = True \<rparr>, ud_kp = None, trace = [] \<rparr>
    = (Inl (Error (lit ''Contract address looks invalid: nope'')),
       \<lparr> relayer = Some \<lparr> inst_id = 0, has_generateKeypair = True \<rparr>, ud_kp = None, trace = [] \<rparr>)"
proof -
  let ?w = "stub_world create_never example_mapping"
  let ?s = "\<lparr> relayer = Some \<lparr> inst_id = 0, has_generateKeypair = True \<rparr>, ud_kp = None,
      trace = [] \<rparr>"
  have i: "initRelayer ?w ?s = (Inr \<lparr> inst_id = 0, has_generateKeypair = True \<rparr>, ?s)"
    by (simp add: initRelayer_cached)
  note u = ensure_example_user [of ?w ?s]
  have e: "addressVariants (window_getAddress ?w) (ArgStr not_an_address) = []
      \<or> addressVariants (window_getAddress ?w) (ArgStr example_user) = []"
    by (simp add: stub_getAddress nope_invalid)
  from encrypt64For_invalid_address [OF i u e, of 500] nope_message
  show ?thesis
    by (simp add: stub_getAddress nope_invalid invalid_contract_def)
qed

lemma example_variants:
  "addressVariants example_getAddress (ArgStr example_address) = [example_checksummed, example_lower]"
proof -
  have c: "clean_address (ArgStr example_address) = lit ''0xABCDEF1234567890ABCDEF1234567890ABCDEF12''"
    by (simp add: example_address_def clean_address_def arg_or_empty_def strip_zwsp_def
        js_trim_def lit_def is_js_space_def)
  have l: "toLowerCase (lit ''0xABCDEF1234567890ABCDEF1234567890ABCDEF12'') = example_lower"
    by (simp add: toLowerCase_def lower_unit_def lit_def example_lower_def)
  have h: "is_address_lower example_lower"
    by (simp add: is_address_lower_def matches_0x40_def lit_def is_hex_lower_def is_digit_def
        example_lower_def)
  have m: "is_address_mixed example_checksummed"
    by (simp add: is_address_mixed_def matches_0x40_def lit_def is_hex_mixed_def
        is_hex_lower_def is_digit_def example_checksummed_def)
  have k: "checksum_step example_getAddress (lit ''0xABCDEF1234567890ABCDEF1234567890ABCDEF12'')
     = Some example_checksummed"
    by (simp add: checksum_step_def example_getAddress_def l)
  have ne: "example_checksummed \<noteq> example_lower"
    by (simp add: lit_def example_checksummed_def example_lower_def)
  show ?thesis
    using h m k ne by (simp add: addressVariants_def Let_def c l set_spread_pair)
qed

lemma example_user_variants:
  "addressVariants example_getAddress (ArgStr example_user) = [example_user]"
proof -
  have c: "clean_address (ArgStr example_user) = example_user"
    by (simp add: clean_address_def arg_or_empty_def strip_zwsp_def js_trim_def
        example_user_def lit_def is_js_space_def)
  have l: "toLowerCase example_user = example_user"
    by (simp add: toLowerCase_def lower_unit_def lit_def example_user_def)
  have h: "is_address_lower example_user"
    by (simp add: is_address_lower_def matches_0x40_def lit_def is_hex_lower_def is_digit_def
        example_user_def)
  have n: "example_user \<noteq> example_lower"
    by (simp add: lit_def example_user_def example_lower_def)
  have k: "checksum_step example_getAddress example_user = Some example_user"
    using n address_lower_mixed [OF h] by (simp add: checksum_step_def example_getAddress_def l)
  show ?thesis
    using h address_lower_mixed [OF h] k
    by (simp add: addressVariants_def Let_def c l set_spread_pair)
qed

lemma attempt_stub:
  "attempt (stub_world create out) r v shape ca ua s =
     (case create shape ca ua of
        Inl e \<Rightarrow> (Inl e, s\<lparr>trace := trace s @ [EvCreateEncryptedInput (inst_id r) shape ca ua]\<rparr>)
      | Inr b \<Rightarrow>
          bind (attachExtraData (stub_world create out) b ca ua) (\<lambda>_. doEncrypt b v)
            (s\<lparr>trace := trace s @ [EvCreateEncryptedInput (inst_id r) shape ca ua]\<rparr>))"
  by (simp add: attempt_def bind_def ext_def stub_world_def split: sum.splits)

lemma stub_builder_throws:
  "bind (attachExtraData w (stub_builder (Inl e)) ca ua) (\<lambda>_. doEncrypt (stub_builder (Inl e)) v) s
     = (Inl e, s\<lparr>trace := trace s @ [EvAdd64 v, EvEncrypt]\<rparr>)"
  by (simp add: bind_def attachExtraData_def Let_def stub_builder_def ret_def doEncrypt_result)

lemma stub_builder_good:
  "bind (attachExtraData w (stub_builder (Inr (Some good_out))) ca ua)
      (\<lambda>_. doEncrypt (stub_builder (Inr (Some good_out))) v) s
     = (Inr \<lparr> handle = JBytes [1, 2], attestation = JBytes [3] \<rparr>,
        s\<lparr>trace := trace s @ [EvAdd64 v, EvEncrypt]\<rparr>)"
  by (simp add: bind_def attachExtraData_def Let_def stub_builder_def ret_def doEncrypt_result
      good_out_def out_field_def js_or_def index0_def truthy_def truthy_prim_def)

lemma example_order:
  "attempt_order [example_checksummed, example_lower] [example_user] =
     [(Structured, example_checksummed, example_user), (Positional, example_checksummed, example_user),
      (Structured, example_lower, example_user), (Positional, example_lower, example_user)]"
  by (simp add: attempt_order_def)

lemma checksummed_not_lower: "example_checksummed \<noteq> example_lower"
  by (simp add: lit_def example_checksummed_def example_lower_def)

text \<open>
  Claim C2, as amended. Let session initialisation and the resolution of the user
  address succeed and both candidate lists be non-empty. The attempts that
  \<open>encrypt64For\<close> makes are an initial part of \<open>attempt_order\<close>: contract candidates in
  the outer loop, user candidates in the inner one, and for each pair the structured
  call before the positional one. When it returns a value, every attempt before the last
  one made has thrown, the last one made returned that value, and no later attempt was
  made. When it throws, every attempt of the order was made and has thrown. An attempt
  throws when the construction, the attaching of the extra data or the encryption throws:
  so the positional call of a pair is made exactly when the structured attempt of that
  pair (and every attempt before it) has thrown, at whichever of these steps.
\<close>

theorem encrypt64For_attempts_in_order:
  assumes "initRelayer w s = (Inr r, s1)"
    and "ensureUserAddress w userAddress s1 = (Inr uaRaw, s2)"
    and "addressVariants (window_getAddress w) contractAddress \<noteq> []"
    and "addressVariants (window_getAddress w) (ArgStr uaRaw) \<noteq> []"
    and "encrypt64For w contractAddress userAddress v s = (res, s')"
  shows "(\<forall>x. res = Inr x \<longrightarrow>
      (\<exists>pre c post lastErr s3.
          attempt_order (addressVariants (window_getAddress w) contractAddress)
            (addressVariants (window_getAddress w) (ArgStr uaRaw)) = pre @ c # post
        \<and> fail_all w r v pre None s2 = Some (lastErr, s3)
        \<and> attempt w r v (fst c) (fst (snd c)) (snd (snd c)) s3 = (Inr x, s')
        \<and> created_inputs (trace s') = created_inputs (trace s2) @ pre @ [c]))
   \<and> (\<forall>e. res = Inl e \<longrightarrow>
      (\<exists>lastErr.
          fail_all w r v
            (attempt_order (addressVariants (window_getAddress w) contractAddress)
               (addressVariants (window_getAddress w) (ArgStr uaRaw))) None s2 = Some (lastErr, s')
        \<and> e = final_error lastErr
        \<and> created_inputs (trace s') = created_inputs (trace s2)
             @ attempt_order (addressVariants (window_getAddress w) contractAddress)
                 (addressVariants (window_getAddress w) (ArgStr uaRaw))))"
proof -
  let ?order = "attempt_order (addressVariants (window_getAddress w) contractAddress)
      (addressVariants (window_getAddress w) (ArgStr uaRaw))"
  obtain ex sx where t: "try_all w r v ?order None s2 = (ex, sx)"
    by (cases "try_all w r v ?order None s2")
  from assms(3,4,5) t have run:
    "(res, s') = (case ex of Return x \<Rightarrow> (Inr x, sx) | Next le \<Rightarrow> (Inl (final_error le), sx))"
    by (simp add: encrypt64For_after_setup [OF assms(1,2)] split: loop_exit.splits)
  show ?thesis
  proof (cases ex)
    case (Return x)
    with run have r: "res = Inr x" "s' = sx" by simp_all
    from t Return r have "try_all w r v ?order None s2 = (Return x, s')" by simp
    from try_all_Return [OF this] obtain pre c post le s3 where
      d: "?order = pre @ c # post" "fail_all w r v pre None s2 = Some (le, s3)"
        "attempt w r v (fst c) (fst (snd c)) (snd (snd c)) s3 = (Inr x, s')"
      by blast
    have "created_inputs (trace s') = created_inputs (trace s2) @ pre @ [c]"
      using fail_all_created_inputs [OF d(2)] attempt_created_inputs [OF d(3)] by simp
    with d r show ?thesis by blast
  next
    case (Next le)
    with run have r: "res = Inl (final_error le)" "s' = sx" by simp_all
    from t Next r have f: "fail_all w r v ?order None s2 = Some (le, s')"
      by (simp add: try_all_Next)
    from fail_all_created_inputs [OF f] f r show ?thesis by simp
  qed
qed

lemma scenario_run:
  "encrypt64For (stub_world create_positional_lower example_mapping)
      (ArgStr example_address) (ArgStr example_user) 500 fresh
   = (Inr \<lparr> handle = JBytes [1, 2], attestation = JBytes [3] \<rparr>,
      \<lparr> relayer = Some \<lparr> inst_id = 0, has_generateKeypair = True \<rparr>,
        ud_kp = Some \<lparr> publicKey = lit ''pub'', privateKey = lit ''priv'' \<rparr>,
        trace = [EvInitSDK, EvCreateInstance, EvGenerateKeypair 0,
          EvCreateEncryptedInput 0 Structured example_checksummed example_user,
          EvCreateEncryptedInput 0 Positional example_checksummed example_user,
          EvCreateEncryptedInput 0 Structured example_lower example_user,
          EvCreateEncryptedInput 0 Positional example_lower example_user,
          EvAdd64 500, EvEncrypt] \<rparr>)"
proof -
  have f: "create_positional_lower Structured ca ua = Inl (Error (lit ''unsupported''))" for ca ua
    by (simp add: create_positional_lower_def)
  have g: "create_positional_lower Positional example_checksummed ua
      = Inl (Error (lit ''unsupported''))" for ua
    by (simp add: create_positional_lower_def checksummed_not_lower)
  have h: "create_positional_lower Positional example_lower ua
      = Inr (stub_builder (Inr (Some good_out)))" for ua
    by (simp add: create_positional_lower_def)
  show ?thesis
    by (simp add: encrypt64For_after_setup [OF fresh_initRelayer ensure_example_user]
        stub_getAddress example_variants example_user_variants example_order
        attempt_stub f g h stub_builder_good)
qed

theorem encrypt64For_attempts_in_order_witness:
  "fst (encrypt64For (stub_world create_positional_lower example_mapping)
      (ArgStr example_address) (ArgStr example_user) 500 fresh)
     = Inr \<lparr> handle = JBytes [1, 2], attestation = JBytes [3] \<rparr>
   \<and> created_inputs (trace (snd (encrypt64For (stub_world create_positional_lower example_mapping)
      (ArgStr example_address) (ArgStr example_user) 500 fresh)))
     = [(Structured, example_checksummed, example_user),
        (Positional, example_checksummed, example_user),
        (Structured, example_lower, example_user),
        (Positional, example_lower, example_user)]"
proof -
  let ?w = "stub_world create_positional_lower example_mapping"
  have n: "addressVariants (window_getAddress ?w) (ArgStr example_address) \<noteq> []"
    "addressVariants (window_getAddress ?w) (ArgStr example_user) \<noteq> []"
    by (simp_all add: stub_getAddress example_variants example_user_variants)
  from encrypt64For_attempts_in_order
    [OF fresh_initRelayer ensure_example_user n scenario_run]
  show ?thesis
    by (simp add: scenario_run created_inputs_def created_input_def)
qed

text \<open>
  The claim C2 as it was stated fails where it says that the positional call is made only
  if the structured construction throws: here the structured construction returns a
  builder, that builder's \<^verbatim>\<open>encrypt\<close> throws, and the positional call is made for the
  same pair.
\<close>

theorem encrypt64For_positional_after_construction_counterexample:
  "w_createEncryptedInput (stub_world create_structured_unusable example_mapping)
      [EvInitSDK, EvCreateInstance, EvGenerateKeypair 0] 0 Structured
      example_checksummed example_user
     = Inr (stub_builder (Inl (Error (lit ''encrypt failed''))))
   \<and> encrypt64For (stub_world create_structured_unusable example_mapping)
      (ArgStr example_address) (ArgStr example_user) 500 fresh
   = (Inr \<lparr> handle = JBytes [1, 2], attestation = JBytes [3] \<rparr>,
      \<lparr> relayer = Some \<lparr> inst_id = 0, has_generateKeypair = True \<rparr>,
        ud_kp = Some \<lparr> publicKey = lit ''pub'', privateKey = lit ''priv'' \<rparr>,
        trace = [EvInitSDK, EvCreateInstance, EvGenerateKeypair 0,
          EvCreateEncryptedInput 0 Structured example_checksummed example_user,
          EvAdd64 500, EvEncrypt,
          EvCreateEncryptedInput 0 Positional example_checksummed example_user,
          EvAdd64 500, EvEncrypt] \<rparr>)"
proof -
  have f: "create_structured_unusable Structured ca ua
      = Inr (stub_builder (Inl (Error (lit ''encrypt failed''))))" for ca ua
    by (simp add: create_structured_unusable_def)
  have h: "create_structured_unusable Positional ca ua
      = Inr (stub_builder (Inr (Some good_out)))" for ca ua
    by (simp add: create_structured_unusable_def)
  have "w_createEncryptedInput (stub_world create_structured_unusable example_mapping)
      [EvInitSDK, EvCreateInstance, EvGenerateKeypair 0] 0 Structured
      example_checksummed example_user
     = Inr (stub_builder (Inl (Error (lit ''encrypt failed''))))"
    by (simp add: stub_world_def f)
  then show ?thesis
    by (simp add: encrypt64For_after_setup [OF fresh_initRelayer ensure_example_user]
        stub_getAddress example_variants example_user_variants example_order
        attempt_stub f h stub_builder_throws stub_builder_good)
qed

text \<open>
  Claim C3. Let session initialisation and the resolution of the user address succeed,
  both candidate lists be non-empty, and every attempt of the order throw. Then
  \<open>encrypt64For\<close> throws \<open>final_error\<close> of the last value thrown, which is the value
  thrown by the positional attempt for the last contract candidate and the last user
  candidate: that value itself when it is truthy, and in particular an \<^verbatim>\<open>Error\<close> with its
  message unchanged.
\<close>

theorem encrypt64For_throws_last_error:
  assumes "initRelayer w s = (Inr r, s1)"
    and "ensureUserAddress w userAddress s1 = (Inr uaRaw, s2)"
    and "addressVariants (window_getAddress w) contractAddress \<noteq> []"
    and "addressVariants (window_getAddress w) (ArgStr uaRaw) \<noteq> []"
    and "fail_all w r v
           (attempt_order (addressVariants (window_getAddress w) contractAddress)
              (addressVariants (window_getAddress w) (ArgStr uaRaw))) None s2 = Some (lastErr, s')"
  shows "encrypt64For w contractAddress userAddress v s = (Inl (final_error lastErr), s')
   \<and> (\<exists>earlier s3 e.
        fail_all w r v
          (butlast (attempt_order (addressVariants (window_getAddress w) contractAddress)
                      (addressVariants (window_getAddress w) (ArgStr uaRaw)))) None s2
          = Some (earlier, s3)
      \<and> attempt w r v Positional (last (addressVariants (window_getAddress w) contractAddress))
            (last (addressVariants (window_getAddress w) (ArgStr uaRaw))) s3 = (Inl e, s')
      \<and> lastErr = Some e
      \<and> (truthy_exn e \<longrightarrow> final_error lastErr = e)
      \<and> (\<forall>msg. e = Error msg \<longrightarrow> final_error lastErr = Error msg))"
proof -
  let ?cas = "addressVariants (window_getAddress w) contractAddress"
  let ?uas = "addressVariants (window_getAddress w) (ArgStr uaRaw)"
  from assms(5) have "try_all w r v (attempt_order ?cas ?uas) None s2 = (Next lastErr, s')"
    by (simp add: try_all_Next)
  with assms(3,4)
  have a: "encrypt64For w contractAddress userAddress v s = (Inl (final_error lastErr), s')"
    by (simp add: encrypt64For_after_setup [OF assms(1,2)])
  from assms(5) attempt_order_last [OF assms(3,4)]
  have "fail_all w r v (butlast (attempt_order ?cas ?uas) @ [(Positional, last ?cas, last ?uas)])
      None s2 = Some (lastErr, s')"
    by simp
  from fail_all_last [OF this] obtain earlier s3 e where
    b: "fail_all w r v (butlast (attempt_order ?cas ?uas)) None s2 = Some (earlier, s3)"
      "attempt w r v Positional (last ?cas) (last ?uas) s3 = (Inl e, s')" "lastErr = Some e"
    by auto
  have c: "truthy_exn e \<longrightarrow> final_error lastErr = e"
    "\<forall>msg. e = Error msg \<longrightarrow> final_error lastErr = Error msg"
    using b(3) by (auto simp: final_error_def truthy_exn_def)
  from a b c show ?thesis by blast
qed

theorem encrypt64For_throws_last_error_witness:
  "fst (encrypt64For (stub_world create_never example_mapping)
      (ArgStr example_address) (ArgStr example_user) 500 fresh)
     = Inl (Error (lit ''positional '' @ example_lower))"
proof -
  let ?w = "stub_world create_never example_mapping"
  let ?r = "\<lparr> inst_id = 0, has_generateKeypair = True \<rparr>"
  let ?s2 = "\<lparr> relayer = Some ?r,
        ud_kp = Some \<lparr> publicKey = lit ''pub'', privateKey = lit ''priv'' \<rparr>,
        trace = [EvInitSDK, EvCreateInstance, EvGenerateKeypair 0] \<rparr>"
  have n: "addressVariants (window_getAddress ?w) (ArgStr example_address) \<noteq> []"
    "addressVariants (window_getAddress ?w) (ArgStr example_user) \<noteq> []"
    by (simp_all add: stub_getAddress example_variants example_user_variants)
  have f: "create_never shape ca ua
      = Inl (Error ((if shape = Structured then lit ''structured '' else lit ''positional '') @ ca))"
    for shape ca ua
    by (simp add: create_never_def)
  have "\<exists>s'. fail_all ?w ?r 500
      (attempt_order (addressVariants (window_getAddress ?w) (ArgStr example_address))
         (addressVariants (window_getAddress ?w) (ArgStr example_user))) None ?s2
      = Some (Some (Error (lit ''positional '' @ example_lower)), s')"
    by (simp add: stub_getAddress example_variants example_user_variants example_order
        attempt_stub f)
  then obtain s' where "fail_all ?w ?r 500
      (attempt_order (addressVariants (window_getAddress ?w) (ArgStr example_address))
         (addressVariants (window_getAddress ?w) (ArgStr example_user))) None ?s2
      = Some (Some (Error (lit ''positional '' @ example_lower)), s')"
    by blast
  from encrypt64For_throws_last_error [OF fresh_initRelayer ensure_example_user n this]
  show ?thesis
    by (simp add: final_error_def truthy_exn_def)
qed

section \<open>The contract address of userDecrypt\<close>

lemma set_foldl_set_insert: "set (foldl set_insert acc xs) = set acc \<union> set xs"
  by (induction xs arbitrary: acc) (auto simp: set_insert_def)

lemma set_set_spread: "set (set_spread xs) = set xs"
  by (simp add: set_spread_def set_foldl_set_insert)

lemma addressVariants_all_addresses:
  "c \<in> set (addressVariants ga a) \<Longrightarrow> is_address_mixed c"
  by (auto simp: addressVariants_def Let_def set_set_spread address_lower_mixed
      split: option.splits if_splits)

lemma address_not_empty: "is_address_mixed c \<Longrightarrow> c \<noteq> []"
  by (auto simp: is_address_mixed_def matches_0x40_def)

lemma resolve_contract_first:
  "resolve_contract ga a = (case addressVariants ga a of [] \<Rightarrow> a | c # _ \<Rightarrow> ArgStr c)"
proof (cases "addressVariants ga a")
  case Nil
  then show ?thesis by (simp add: resolve_contract_def)
next
  case (Cons c cs)
  then have "c \<in> set (addressVariants ga a)" by simp
  then have "c \<noteq> []" using addressVariants_all_addresses address_not_empty by blast
  with Cons show ?thesis by (simp add: resolve_contract_def)
qed

lemma appends_read: "appends P (\<lambda>s. (Inr (f s), s))"
  by (simp add: appends_def)

lemma bind_ret: "bind (ret x) f = f x"
  by (rule ext) (simp add: bind_def ret_def)

lemma collaborators_succeedD:
  assumes "collaborators_succeed w"
  shows "has_ethereum w" and "ethers w \<noteq> None"
    and "\<And>t. w_initSDK w t = None"
    and "\<And>t. \<exists>i. w_createInstance w t = Inr i"
    and "\<And>t i. \<exists>kp. w_generateKeypair w t i = Inr kp"
    and "\<And>t. \<exists>kp. w_sdkGenerateKeypair w t = Inr kp"
    and "\<And>t. \<exists>a rest. w_eth_accounts w t = Inr (Some (a # rest)) \<and> a \<noteq> []"
    and "\<And>t. w_eth_requestAccounts w t = None"
    and "\<And>t. \<exists>signer. w_getSigner w t = Inr signer"
    and "\<And>t signer. \<exists>user. w_signer_getAddress w t signer = Inr user"
    and "\<And>t i pk cas startTs days. \<exists>eip. w_createEIP712 w t i pk cas startTs days = Inr eip"
    and "\<And>t signer eip. \<exists>sig. w_signTypedData w t signer eip = Inr sig"
    and "\<And>t i rq. \<exists>out. w_userDecrypt w t i rq = Inr out"
  using assms by (simp_all add: collaborators_succeed_def)

lemma appends_request_userDecrypt:
  "appends (carries_contract (resolve_contract (window_getAddress w) contractAddress) handles)
     (request_userDecrypt w handles userAddress contractAddress)"
  unfolding request_userDecrypt_def bind_ret
  by (intro appends_bind appends_initRelayer appends_ensureUserAddress
      appends_ensure_keypair appends_getSignerAndUser appends_read appends_ext)
    (simp_all add: carries_contract_def)

lemma appends_userDecrypt:
  "appends (carries_contract (resolve_contract (window_getAddress w) contractAddress) handles)
     (userDecrypt w handles userAddress contractAddress)"
  unfolding userDecrypt_def
  by (intro appends_bind appends_request_userDecrypt appends_lift)

lemma generate_keypair_succeeds:
  assumes "collaborators_succeed w"
  shows "\<exists>kp. generate_keypair w r s =
      (Inr kp, s\<lparr>trace := trace s @ [if has_generateKeypair r then EvGenerateKeypair (inst_id r)
                                       else EvSdkGenerateKeypair]\<rparr>)"
proof (cases "has_generateKeypair r")
  case True
  from collaborators_succeedD(5) [OF assms] obtain kp where
    "w_generateKeypair w (trace s) (inst_id r) = Inr kp" by blast
  with True show ?thesis by (simp add: generate_keypair_def ext_def)
next
  case False
  from collaborators_succeedD(6) [OF assms] obtain kp where
    "w_sdkGenerateKeypair w (trace s) = Inr kp" by blast
  with False show ?thesis by (simp add: generate_keypair_def ext_def)
qed

lemma ensure_keypair_succeeds:
  assumes "collaborators_succeed w"
  shows "\<exists>kp s'. ensure_keypair w r s = (Inr kp, s')"
proof (cases "ud_kp s")
  case (Some kp)
  then show ?thesis by (simp add: ensure_keypair_def)
next
  case None
  from generate_keypair_succeeds [OF assms, of r s] obtain kp s1 where
    "generate_keypair w r s = (Inr kp, s1)" by blast
  with None show ?thesis by (simp add: ensure_keypair_def bind_def)
qed

lemma initRelayer_succeeds:
  assumes "collaborators_succeed w"
  shows "\<exists>r s'. initRelayer w s = (Inr r, s')"
proof (cases "relayer s")
  case (Some r)
  then show ?thesis by (simp add: initRelayer_cached)
next
  case None
  from collaborators_succeedD(1,3) [OF assms]
  have e: "has_ethereum w" and sdk: "w_initSDK w (trace s) = None" by simp_all
  from collaborators_succeedD(4) [OF assms] obtain i where
    i: "w_createInstance w (trace s @ [EvInitSDK]) = Inr i" by blast
  from ensure_keypair_succeeds [OF assms] obtain kp sk where
    "ensure_keypair w i (s\<lparr>trace := trace s @ [EvInitSDK, EvCreateInstance], relayer := Some i\<rparr>)
      = (Inr kp, sk)"
    by blast
  with None e sdk i show ?thesis by (simp add: initRelayer_uncached)
qed

lemma ensureUserAddress_succeeds:
  assumes "collaborators_succeed w"
  shows "\<exists>ua s'. ensureUserAddress w userAddress s = (Inr ua, s')"
proof (cases "js_trim (arg_or_empty userAddress) = []")
  case False
  then show ?thesis by (simp add: ensureUserAddress_given)
next
  case True
  from collaborators_succeedD(1) [OF assms] have e: "has_ethereum w" .
  from collaborators_succeedD(7) [OF assms] obtain a rest where
    "w_eth_accounts w (trace s) = Inr (Some (a # rest))" "a \<noteq> []" by blast
  with True e show ?thesis
    by (simp add: ensureUserAddress_def bind_def ext_def ret_def)
qed

lemma getSignerAndUser_succeeds:
  assumes "collaborators_succeed w"
  shows "\<exists>su s'. getSignerAndUser w s = (Inr su, s')"
proof -
  from collaborators_succeedD(1,2,8) [OF assms]
  have e: "has_ethereum w" "ethers w \<noteq> None" "w_eth_requestAccounts w (trace s) = None"
    by simp_all
  from collaborators_succeedD(9) [OF assms] obtain sg where
    sg: "w_getSigner w (trace s @ [EvRequestAccounts]) = Inr sg" by blast
  from collaborators_succeedD(10) [OF assms] obtain u where
    "w_signer_getAddress w (trace s @ [EvRequestAccounts, EvGetSigner]) sg = Inr u" by blast
  with e sg show ?thesis
    by (auto simp: getSignerAndUser_def bind_def ext_def void_def ret_def)
qed

lemma request_userDecrypt_succeeds:
  assumes "collaborators_succeed w"
  shows "\<exists>out s' earlier i rq.
      request_userDecrypt w handles userAddress contractAddress s = (Inr out, s')
    \<and> trace s' = earlier @ [EvUserDecrypt i rq]
    \<and> rq_contracts rq = [resolve_contract (window_getAddress w) contractAddress]"
proof -
  let ?ca = "resolve_contract (window_getAddress w) contractAddress"
  from initRelayer_succeeds [OF assms] obtain r s1 where
    1: "initRelayer w s = (Inr r, s1)" by blast
  from ensureUserAddress_succeeds [OF assms] obtain ua s2 where
    2: "ensureUserAddress w userAddress s1 = (Inr ua, s2)" by blast
  from ensure_keypair_succeeds [OF assms] obtain kp s3 where
    3: "ensure_keypair w r s2 = (Inr kp, s3)" by blast
  from getSignerAndUser_succeeds [OF assms] obtain su s4 where
    4: "getSignerAndUser w s3 = (Inr su, s4)" by blast
  let ?ts = "decimal (date_now w (trace s4) div 1000)"
  let ?e1 = "EvCreateEIP712 (inst_id r) (publicKey kp) [?ca] ?ts (lit ''7'')"
  from collaborators_succeedD(11) [OF assms] obtain eip where
    5: "w_createEIP712 w (trace s4) (inst_id r) (publicKey kp) [?ca] ?ts (lit ''7'') = Inr eip"
    by blast
  let ?e2 = "EvSignTypedData (fst su) eip"
  from collaborators_succeedD(12) [OF assms] obtain sig where
    6: "w_signTypedData w (trace s4 @ [?e1]) (fst su) eip = Inr sig" by blast
  let ?rq = "\<lparr> rq_pairs = map (\<lambda>h. (h, ?ca)) handles,
                 rq_privateKey = privateKey kp,
                 rq_publicKey = publicKey kp,
                 rq_signature = strip_0x sig,
                 rq_contracts = [?ca],
                 rq_user = ua,
                 rq_startTs = ?ts,
                 rq_days = lit ''7'' \<rparr>"
  from collaborators_succeedD(13) [OF assms] obtain out where
    7: "w_userDecrypt w (trace s4 @ [?e1, ?e2]) (inst_id r) ?rq = Inr out" by blast
  have "request_userDecrypt w handles userAddress contractAddress s
      = (Inr out, s4\<lparr>trace := trace s4 @ [?e1, ?e2, EvUserDecrypt (inst_id r) ?rq]\<rparr>)"
    using 1 2 3 4 5 6 7
    by (simp add: request_userDecrypt_def bind_def ret_def ext_def)
  moreover have "trace (s4\<lparr>trace := trace s4 @ [?e1, ?e2, EvUserDecrypt (inst_id r) ?rq]\<rparr>)
      = (trace s4 @ [?e1, ?e2]) @ [EvUserDecrypt (inst_id r) ?rq]"
    by simp
  moreover have "rq_contracts ?rq = [?ca]" by simp
  ultimately show ?thesis by blast
qed

text \<open>
  Claim C8. The contract address that \<open>userDecrypt\<close> uses is the first candidate of
  \<open>addressVariants\<close> (the checksummed form when there is one, else the lower-case form), and
  the argument as it was given when there is no candidate. Every typed-data request and
  every backend decrypt request that \<open>userDecrypt\<close> makes carries this address: as the
  single element of the contract list and as the partner of every handle. The call does
  not fail on an address without candidates: whatever the contract address, when the
  collaborators answer their calls, the backend's decrypt call is reached with that
  address and \<open>userDecrypt\<close> returns what the response decodes to.
\<close>

theorem userDecrypt_contract_address:
  "resolve_contract (window_getAddress w) contractAddress
     = (case addressVariants (window_getAddress w) contractAddress of
          [] \<Rightarrow> contractAddress
        | c # _ \<Rightarrow> ArgStr c)
   \<and> (\<forall>res s'. userDecrypt w handles userAddress contractAddress s = (res, s') \<longrightarrow>
        (\<exists>new. trace s' = trace s @ new
           \<and> list_all (carries_contract (resolve_contract (window_getAddress w) contractAddress)
                 handles) new))
   \<and> (collaborators_succeed w \<longrightarrow>
        (\<exists>out s' earlier i rq.
            request_userDecrypt w handles userAddress contractAddress s = (Inr out, s')
          \<and> userDecrypt w handles userAddress contractAddress s
              = (decode_response handles out, s')
          \<and> trace s' = earlier @ [EvUserDecrypt i rq]
          \<and> rq_contracts rq = [resolve_contract (window_getAddress w) contractAddress]))"
proof (intro conjI allI impI)
  show "resolve_contract (window_getAddress w) contractAddress
     = (case addressVariants (window_getAddress w) contractAddress of
          [] \<Rightarrow> contractAddress
        | c # _ \<Rightarrow> ArgStr c)"
    by (rule resolve_contract_first)
next
  fix res s'
  assume "userDecrypt w handles userAddress contractAddress s = (res, s')"
  with appends_userDecrypt
  show "\<exists>new. trace s' = trace s @ new
           \<and> list_all (carries_contract (resolve_contract (window_getAddress w) contractAddress)
                 handles) new"
    by (rule appendsD)
next
  assume "collaborators_succeed w"
  from request_userDecrypt_succeeds [OF this] obtain out s' earlier i rq where
    r: "request_userDecrypt w handles userAddress contractAddress s = (Inr out, s')"
      "trace s' = earlier @ [EvUserDecrypt i rq]"
      "rq_contracts rq = [resolve_contract (window_getAddress w) contractAddress]"
    by blast
  from userDecrypt_decode [OF r(1)] r
  show "\<exists>out s' earlier i rq.
            request_userDecrypt w handles userAddress contractAddress s = (Inr out, s')
          \<and> userDecrypt w handles userAddress contractAddress s
              = (decode_response handles out, s')
          \<and> trace s' = earlier @ [EvUserDecrypt i rq]
          \<and> rq_contracts rq = [resolve_contract (window_getAddress w) contractAddress]"
    by blast
qed

lemma stub_collaborators_succeed: "collaborators_succeed (stub_world create out)"
  by (simp add: collaborators_succeed_def stub_world_def example_getAddress_def
      example_user_def lit_def)

lemma nope_resolves: "resolve_contract example_getAddress (ArgStr not_an_address) = ArgStr not_an_address"
  by (simp add: resolve_contract_def nope_invalid)

lemma fresh_request_userDecrypt:
  "request_userDecrypt (stub_world create out) handles ArgUndefined a fresh =
     (Inr out,
      \<lparr> relayer = Some \<lparr> inst_id = 0, has_generateKeypair = True \<rparr>,
        ud_kp = Some \<lparr> publicKey = lit ''pub'', privateKey = lit ''priv'' \<rparr>,
        trace = [EvInitSDK, EvCreateInstance, EvGenerateKeypair 0, EvEthAccounts,
          EvRequestAccounts, EvGetSigner, EvSignerGetAddress 0,
          EvCreateEIP712 0 (lit ''pub'') [resolve_contract example_getAddress a]
            (decimal 1700000000) (lit ''7''),
          EvSignTypedData 0 \<lparr> eip_domain = 0, eip_type = 1, eip_message = 2 \<rparr>,
          EvUserDecrypt 0
            \<lparr> rq_pairs = map (\<lambda>h. (h, resolve_contract example_getAddress a)) handles,
              rq_privateKey = lit ''priv'',
              rq_publicKey = lit ''pub'',
              rq_signature = lit ''sig'',
              rq_contracts = [resolve_contract example_getAddress a],
              rq_user = example_user,
              rq_startTs = decimal 1700000000,
              rq_days = lit ''7'' \<rparr>] \<rparr>)"
proof -
  have u: "ensureUserAddress (stub_world create out) ArgUndefined s
      = (Inr example_user, s\<lparr>trace := trace s @ [EvEthAccounts]\<rparr>)" for s
    by (simp add: ensureUserAddress_def arg_or_empty_def js_trim_def bind_def ext_def)
      (simp add: stub_world_def example_user_def lit_def ret_def)
  have k: "ensure_keypair (stub_world create out) r
      (s\<lparr>ud_kp := Some kp\<rparr>) = (Inr kp, s\<lparr>ud_kp := Some kp\<rparr>)" for r s kp
    by (simp add: ensure_keypair_def)
  have g: "getSignerAndUser (stub_world create out) s
      = (Inr (0, example_user),
         s\<lparr>trace := trace s @ [EvRequestAccounts, EvGetSigner, EvSignerGetAddress 0]\<rparr>)" for s
    by (simp add: getSignerAndUser_def bind_def ext_def void_def ret_def stub_world_def)
  have x: "strip_0x (lit ''0xsig'') = lit ''sig''"
    by (simp add: strip_0x_def lit_def)
  have w: "w_createEIP712 (stub_world create out) t i pk cas st d
        = Inr \<lparr> eip_domain = 0, eip_type = 1, eip_message = 2 \<rparr>"
      "w_signTypedData (stub_world create out) t sg eip = Inr (lit ''0xsig'')"
      "w_userDecrypt (stub_world create out) t i rq = Inr out"
      "date_now (stub_world create out) t = 1700000000000"
    for t i pk cas st d sg eip rq
    by (simp_all add: stub_world_def)
  show ?thesis
    by (simp add: request_userDecrypt_def bind_def fresh_initRelayer u ensure_keypair_def g
        ret_def ext_def w x stub_getAddress)
qed

theorem userDecrypt_contract_address_witness:
  "addressVariants example_getAddress (ArgStr not_an_address) = []
   \<and> fst (userDecrypt (stub_world create_never example_mapping) [handle_A, handle_B]
        ArgUndefined (ArgStr not_an_address) fresh) = Inr [7, 9]
   \<and> last (trace (snd (userDecrypt (stub_world create_never example_mapping) [handle_A, handle_B]
        ArgUndefined (ArgStr not_an_address) fresh)))
      = EvUserDecrypt 0
          \<lparr> rq_pairs = [(handle_A, ArgStr not_an_address), (handle_B, ArgStr not_an_address)],
            rq_privateKey = lit ''priv'',
            rq_publicKey = lit ''pub'',
            rq_signature = lit ''sig'',
            rq_contracts = [ArgStr not_an_address],
            rq_user = example_user,
            rq_startTs = decimal 1700000000,
            rq_days = lit ''7'' \<rparr>"
proof -
  let ?w = "stub_world create_never example_mapping"
  have d: "decode_response [handle_A, handle_B] example_mapping = Inr [7, 9]"
    by (simp add: example_mapping_def decode_response_def lookup_handle_def prop_get_def
        nullish_def BigInt_def handle_A_def handle_B_def lit_def)
  note r = fresh_request_userDecrypt [of create_never example_mapping "[handle_A, handle_B]"
      "ArgStr not_an_address"]
  from userDecrypt_contract_address [of ?w "ArgStr not_an_address" "[handle_A, handle_B]"
      ArgUndefined fresh] stub_collaborators_succeed [of create_never example_mapping]
  show ?thesis
    using userDecrypt_decode [OF r] d nope_invalid
    by (simp add: nope_resolves)
qed

section \<open>Two calls of initRelayer at once\<close>

lemma init_step_settled: "init_step w (Settled r) s = (Settled r, s)"
  by (simp add: init_step_def)

text \<open>
  A task that runs alone through its four steps does what \<open>initRelayer\<close> does: the two
  models agree on calls that do not overlap.
\<close>

lemma initRelayer_as_task:
  "run_schedule w [0, 0, 0, 0] [NotStarted] s =
     ([Settled (case fst (initRelayer w s) of Inl e \<Rightarrow> Inl e | Inr r \<Rightarrow> Inr (Some r))],
      snd (initRelayer w s))"
proof (cases "relayer s")
  case (Some r)
  then show ?thesis
    by (simp add: initRelayer_cached init_step_def)
next
  case None
  show ?thesis
  proof (cases "has_ethereum w")
    case False
    with None show ?thesis
      by (simp add: initRelayer_no_wallet init_step_def)
  next
    case True
    with None show ?thesis
      by (auto simp: initRelayer_uncached ensure_keypair_def generate_keypair_def
          bind_def ext_def init_step_def void_def Let_def split: option.splits sum.splits)
  qed
qed

text \<open>
  Claim C6 says that calls of \<open>initRelayer\<close> that overlap create one backend connection
  and one keypair, and that every caller gets the same session. The code does otherwise.
  Two calls are started on a fresh page before either is resumed, and every collaborator
  succeeds. When the two tasks then take turns, \<^verbatim>\<open>createInstance\<close> is called twice and
  \<^verbatim>\<open>generateKeypair\<close> twice. When the first task runs to its end before the second is
  resumed, \<^verbatim>\<open>createInstance\<close> is again called twice, and the two callers get different
  instances.
\<close>

theorem initRelayer_concurrent_calls_connect_twice:
  "run_schedule (stub_world create_never example_mapping) [0, 1, 0, 1, 0, 1, 0, 1]
      [NotStarted, NotStarted] fresh
   = ([Settled (Inr (Some \<lparr> inst_id = 1, has_generateKeypair = True \<rparr>)),
       Settled (Inr (Some \<lparr> inst_id = 1, has_generateKeypair = True \<rparr>))],
      \<lparr> relayer = Some \<lparr> inst_id = 1, has_generateKeypair = True \<rparr>,
        ud_kp = Some \<lparr> publicKey = lit ''pub'', privateKey = lit ''priv'' \<rparr>,
        trace = [EvInitSDK, EvInitSDK, EvCreateInstance, EvCreateInstance,
                 EvGenerateKeypair 0, EvGenerateKeypair 1] \<rparr>)
   \<and> run_schedule (stub_world create_never example_mapping) [0, 1, 0, 0, 0, 1, 1, 1]
      [NotStarted, NotStarted] fresh
   = ([Settled (Inr (Some \<lparr> inst_id = 0, has_generateKeypair = True \<rparr>)),
       Settled (Inr (Some \<lparr> inst_id = 1, has_generateKeypair = True \<rparr>))],
      \<lparr> relayer = Some \<lparr> inst_id = 1, has_generateKeypair = True \<rparr>,
        ud_kp = Some \<lparr> publicKey = lit ''pub'', privateKey = lit ''priv'' \<rparr>,
        trace = [EvInitSDK, EvInitSDK, EvCreateInstance, EvGenerateKeypair 0,
                 EvCreateInstance] \<rparr>)"
  by (simp add: init_step_def stub_world_def fresh_def void_def)

end
